theory Spec2Isabelle
  imports Complex_Main
begin

section \<open>IteratoP: the convergent iteration processor\<close>

text \<open>
  A shallow embedding of the iteration processor (\<^verbatim>\<open>core.ts\<close>), its types
  (\<^verbatim>\<open>types.ts\<close>), the evaluation constructor of \<^verbatim>\<open>utils.ts\<close> and the streaming
  controller (\<^verbatim>\<open>stream.ts\<close>).

  Conventions of the embedding:
  \<^item> A JavaScript \<^verbatim>\<open>number\<close> that carries a score, a cost or a duration limit is a value
    of the type \<open>number\<close> below: NaN, the two infinities, or a finite value. Comparison and
    \<^verbatim>\<open>Math.min\<close>/\<^verbatim>\<open>Math.max\<close> follow IEEE 754 (every comparison with NaN is false,
    NaN is absorbing). Finite values are real numbers: rounding of sums is not modelled.
  \<^item> Iteration counts and indices (\<^verbatim>\<open>maxIterations\<close>, \<^verbatim>\<open>minIterations\<close>, the loop
    counter) and clock readings (\<^verbatim>\<open>Date.now()\<close>, milliseconds) are integers.
  \<^item> An optional property is an \<open>option\<close>; \<open>None\<close> is the absent property.
  \<^item> A callback of the user is a function on an abstract world \<open>'w\<close>: it returns the new
    world and either its value (\<open>Inr\<close>) or what it threw (\<open>Inl\<close>). \<^verbatim>\<open>await\<close> is the
    sequencing of these functions.
  \<^item> The logger's sinks and the console are called like the callbacks: they change the
    world and return, or throw. The configuration and the listener list of a processor do
    not change while a run is in progress.
  \<^item> A property that is present with the value \<^verbatim>\<open>undefined\<close> is read as absent. The two
    differ only for \<^verbatim>\<open>Object.assign\<close> and the object spread, which copy such a property;
    a configuration update that carries one is outside this embedding.
\<close>

subsection \<open>Numbers\<close>

datatype number = NaN | NegInf | Fin real | PosInf

text \<open>\<^verbatim>\<open>a <= b\<close>\<close>

fun num_le :: "number \<Rightarrow> number \<Rightarrow> bool" where
  "num_le NaN _ = False"
| "num_le _ NaN = False"
| "num_le NegInf _ = True"
| "num_le _ PosInf = True"
| "num_le (Fin x) (Fin y) = (x \<le> y)"
| "num_le (Fin x) NegInf = False"
| "num_le PosInf (Fin y) = False"
| "num_le PosInf NegInf = False"

text \<open>\<^verbatim>\<open>a < b\<close>\<close>

fun num_lt :: "number \<Rightarrow> number \<Rightarrow> bool" where
  "num_lt NaN _ = False"
| "num_lt _ NaN = False"
| "num_lt PosInf _ = False"
| "num_lt _ NegInf = False"
| "num_lt (Fin x) (Fin y) = (x < y)"
| "num_lt NegInf (Fin y) = True"
| "num_lt NegInf PosInf = True"
| "num_lt (Fin x) PosInf = True"

text \<open>\<^verbatim>\<open>a >= b\<close> and \<^verbatim>\<open>a > b\<close>\<close>

definition num_ge :: "number \<Rightarrow> number \<Rightarrow> bool" where
  "num_ge a b = num_le b a"

definition num_gt :: "number \<Rightarrow> number \<Rightarrow> bool" where
  "num_gt a b = num_lt b a"

text \<open>\<^verbatim>\<open>Math.min(a, b)\<close> and \<^verbatim>\<open>Math.max(a, b)\<close>: NaN if either argument is NaN.\<close>

definition math_min :: "number \<Rightarrow> number \<Rightarrow> number" where
  "math_min a b = (if a = NaN \<or> b = NaN then NaN else if num_le a b then a else b)"

definition math_max :: "number \<Rightarrow> number \<Rightarrow> number" where
  "math_max a b = (if a = NaN \<or> b = NaN then NaN else if num_le a b then b else a)"

text \<open>\<^verbatim>\<open>a + b\<close>\<close>

fun num_add :: "number \<Rightarrow> number \<Rightarrow> number" where
  "num_add NaN _ = NaN"
| "num_add _ NaN = NaN"
| "num_add PosInf NegInf = NaN"
| "num_add NegInf PosInf = NaN"
| "num_add PosInf _ = PosInf"
| "num_add _ PosInf = PosInf"
| "num_add NegInf _ = NegInf"
| "num_add _ NegInf = NegInf"
| "num_add (Fin x) (Fin y) = Fin (x + y)"

text \<open>Truthiness of a number: \<^verbatim>\<open>0\<close> and \<^verbatim>\<open>NaN\<close> are falsy.\<close>

definition truthy :: "number \<Rightarrow> bool" where
  "truthy n = (n \<noteq> NaN \<and> n \<noteq> Fin 0)"

subsection \<open>Thrown values\<close>

text \<open>
  What a \<^verbatim>\<open>throw\<close> carries: an \<^verbatim>\<open>Error\<close> with its message, the \<^verbatim>\<open>Error\<close> of the
  configuration check (its message holds minIterations and maxIterations), or a value
  that is not an \<^verbatim>\<open>Error\<close>, given by its \<^verbatim>\<open>String(...)\<close>.
\<close>

datatype thrown =
    Error_obj string
  | Invalid_configuration int int
  | Non_error string

text \<open>\<^verbatim>\<open>error instanceof Error ? error : new Error(String(error))\<close>\<close>

fun as_error :: "thrown \<Rightarrow> thrown" where
  "as_error (Non_error s) = Error_obj s"
| "as_error e = e"

subsection \<open>The types of types.ts\<close>

record evaluation =
  score :: number
  shouldContinue :: bool
  feedback :: string
  missingInfo :: "string list option"
  ev_metadata :: "(string \<times> string) list option"

record action_metadata =
  sources :: "string list option"
  cost :: "number option"
  latency :: "number option"
  warnings :: "string list option"

record 'a action_result =
  data :: 'a
  ar_metadata :: "action_metadata option"

record iteration_context =
  ctx_iteration :: int
  ctx_maxIterations :: int
  elapsedTime :: int
  previousEvaluation :: "evaluation option"

record 'a iteration_history =
  h_iteration :: int
  h_actionResult :: "'a action_result"
  h_evaluation :: evaluation
  timestamp :: int
  duration :: int

datatype termination_reason = Converged | Early_stop | Max_iterations | Timeout | Manual_stop

record ('r, 'a) iteration_result =
  result :: 'r
  iterations :: nat
  finalScore :: number
  converged :: bool
  terminationReason :: termination_reason
  totalCost :: number
  totalLatency :: int
  history :: "'a iteration_history list"

text \<open>A line of the verbose log: the template of the message and its arguments.\<close>

datatype log_line =
    Log_starting int
  | Log_initialized
  | Log_timeout
  | Log_iteration_started int int
  | Log_action_complete nat
  | Log_evaluation_complete number bool
  | Log_transition_complete
  | Log_terminating termination_reason number
  | Log_loop_complete nat number bool termination_reason
  | Log_error thrown

text \<open>The sinks of a logger: each returns what it threw, if it threw.\<close>

record 'w logger =
  lg_error :: "(string \<Rightarrow> thrown \<Rightarrow> 'w \<Rightarrow> thrown option \<times> 'w) option"
  lg_log :: "(log_line \<Rightarrow> 'w \<Rightarrow> thrown option \<times> 'w) option"

text \<open>\<^verbatim>\<open>IterationConfig\<close>: every property is optional.\<close>

record 'w iteration_config =
  cfg_maxIterations :: "int option"
  cfg_targetScore :: "number option"
  cfg_earlyStopScore :: "number option"
  cfg_minIterations :: "int option"
  cfg_timeout :: "number option"
  cfg_verbose :: "bool option"
  cfg_alwaysRunTransition :: "bool option"
  cfg_skipMinIterations :: "bool option"
  cfg_logger :: "'w logger option"

text \<open>\<^verbatim>\<open>ResolvedConfig\<close>: the defaults are applied; timeout and logger stay optional.\<close>

record 'w resolved_config =
  maxIterations :: int
  targetScore :: number
  earlyStopScore :: number
  minIterations :: int
  timeout :: "number option"
  verbose :: bool
  alwaysRunTransition :: bool
  skipMinIterations :: bool
  logger :: "'w logger option"

text \<open>\<^verbatim>\<open>IterationOptions\<close>: the five phases and the two optional callbacks.\<close>

record ('i, 's, 'a, 'r, 'w) iteration_options =
  initialize :: "'i \<Rightarrow> 'w \<Rightarrow> (thrown + 's) \<times> 'w"
  act :: "'s \<Rightarrow> iteration_context \<Rightarrow> 'w \<Rightarrow> (thrown + 'a action_result) \<times> 'w"
  evaluate :: "'s \<Rightarrow> 'a action_result \<Rightarrow> iteration_context \<Rightarrow> 'w \<Rightarrow> (thrown + evaluation) \<times> 'w"
  transition :: "'s \<Rightarrow> 'a action_result \<Rightarrow> evaluation \<Rightarrow> iteration_context \<Rightarrow> 'w \<Rightarrow> (thrown + 's) \<times> 'w"
  finalize :: "'s \<Rightarrow> 'a iteration_history list \<Rightarrow> 'w \<Rightarrow> (thrown + 'r) \<times> 'w"
  shouldTerminate :: "('s \<Rightarrow> evaluation \<Rightarrow> iteration_context \<Rightarrow> 'w \<Rightarrow> (thrown + bool) \<times> 'w) option"
  onError :: "(thrown \<Rightarrow> 's option \<Rightarrow> iteration_context \<Rightarrow> 'w \<Rightarrow> (thrown + 'r) \<times> 'w) option"

datatype ('i, 's, 'a, 'r) iteration_event =
    Ev_start 'i
  | Ev_iteration_start int
  | Ev_action_complete int "'a action_result"
  | Ev_evaluation_complete int evaluation
  | Ev_transition_complete int 's
  | Ev_iteration_complete int "'a iteration_history"
  | Ev_converged int number
  | Ev_complete "('r, 'a) iteration_result"
  | Ev_error thrown nat "'s option"

text \<open>A listener returns what it threw, if it threw.\<close>

type_synonym ('i, 's, 'a, 'r, 'w) listener =
  "('i, 's, 'a, 'r) iteration_event \<Rightarrow> 'w \<Rightarrow> thrown option \<times> 'w"

subsection \<open>createEvaluation (utils.ts)\<close>

text \<open>The second argument: \<^verbatim>\<open>Partial<Omit<Evaluation, 'score'>>\<close>.\<close>

record evaluation_options =
  o_shouldContinue :: "bool option"
  o_feedback :: "string option"
  o_missingInfo :: "string list option"
  o_metadata :: "(string \<times> string) list option"

definition no_options :: evaluation_options where
  "no_options = \<lparr>o_shouldContinue = None, o_feedback = None, o_missingInfo = None,
     o_metadata = None\<rparr>"

definition createEvaluation :: "number \<Rightarrow> evaluation_options \<Rightarrow> evaluation" where
  "createEvaluation s opts =
     \<lparr>score = math_max (Fin 0) (math_min (Fin 100) s),
      shouldContinue = (case o_shouldContinue opts of Some b \<Rightarrow> b | None \<Rightarrow> num_lt s (Fin 70)),
      feedback = (case o_feedback opts of Some f \<Rightarrow> f | None \<Rightarrow> []),
      missingInfo = o_missingInfo opts,
      ev_metadata = o_metadata opts\<rparr>"

subsection \<open>The processor: construction and configuration (core.ts)\<close>

text \<open>\<^verbatim>\<open>x ?? d\<close>\<close>

definition nullish :: "'x option \<Rightarrow> 'x \<Rightarrow> 'x" where
  "nullish x d = (case x of Some v \<Rightarrow> v | None \<Rightarrow> d)"

record ('i, 's, 'a, 'r, 'w) processor =
  options :: "('i, 's, 'a, 'r, 'w) iteration_options"
  config :: "'w resolved_config"
  listeners :: "('i, 's, 'a, 'r, 'w) listener list"

text \<open>The object \<^verbatim>\<open>{}\<close>, the default of the constructor's second parameter.\<close>

definition empty_config :: "'w iteration_config" where
  "empty_config = \<lparr>cfg_maxIterations = None, cfg_targetScore = None,
     cfg_earlyStopScore = None, cfg_minIterations = None, cfg_timeout = None,
     cfg_verbose = None, cfg_alwaysRunTransition = None, cfg_skipMinIterations = None,
     cfg_logger = None\<rparr>"

text \<open>The constructor: it throws when the resolved minIterations exceeds maxIterations.\<close>

definition new_IterationProcessor ::
  "('i, 's, 'a, 'r, 'w) iteration_options \<Rightarrow> 'w iteration_config
   \<Rightarrow> thrown + ('i, 's, 'a, 'r, 'w) processor" where
  "new_IterationProcessor opts c =
     (let maxIts = nullish (cfg_maxIterations c) 5;
          minIts = nullish (cfg_minIterations c) 1
      in if minIts > maxIts then Inl (Invalid_configuration minIts maxIts)
         else Inr \<lparr>options = opts,
                config = \<lparr>maxIterations = maxIts,
                   targetScore = nullish (cfg_targetScore c) (Fin 70),
                   earlyStopScore = nullish (cfg_earlyStopScore c) (Fin 95),
                   minIterations = minIts,
                   timeout = cfg_timeout c,
                   verbose = nullish (cfg_verbose c) False,
                   alwaysRunTransition = nullish (cfg_alwaysRunTransition c) False,
                   skipMinIterations = nullish (cfg_skipMinIterations c) False,
                   logger = cfg_logger c\<rparr>,
                listeners = []\<rparr>)"

definition createIterator ::
  "('i, 's, 'a, 'r, 'w) iteration_options \<Rightarrow> 'w iteration_config option
   \<Rightarrow> thrown + ('i, 's, 'a, 'r, 'w) processor" where
  "createIterator opts c = new_IterationProcessor opts (nullish c empty_config)"

text \<open>\<^verbatim>\<open>on\<close>: the listener is appended (the unsubscribe function it returns is not modelled).\<close>

definition on ::
  "('i, 's, 'a, 'r, 'w) processor \<Rightarrow> ('i, 's, 'a, 'r, 'w) listener
   \<Rightarrow> ('i, 's, 'a, 'r, 'w) processor" where
  "on p l = p\<lparr>listeners := listeners p @ [l]\<rparr>"

text \<open>\<^verbatim>\<open>getConfig\<close> returns a copy of the configuration.\<close>

definition getConfig :: "('i, 's, 'a, 'r, 'w) processor \<Rightarrow> 'w resolved_config" where
  "getConfig p = config p"

text \<open>
  \<^verbatim>\<open>Object.assign(this.config, config)\<close>: every property present in the update is copied.
  (A property present with the value \<^verbatim>\<open>undefined\<close> would be copied too; the embedding
  reads it as absent, see the conventions.)
\<close>

definition object_assign :: "'w resolved_config \<Rightarrow> 'w iteration_config \<Rightarrow> 'w resolved_config" where
  "object_assign r c =
     \<lparr>maxIterations = nullish (cfg_maxIterations c) (maxIterations r),
      targetScore = nullish (cfg_targetScore c) (targetScore r),
      earlyStopScore = nullish (cfg_earlyStopScore c) (earlyStopScore r),
      minIterations = nullish (cfg_minIterations c) (minIterations r),
      timeout = (case cfg_timeout c of Some t \<Rightarrow> Some t | None \<Rightarrow> timeout r),
      verbose = nullish (cfg_verbose c) (verbose r),
      alwaysRunTransition = nullish (cfg_alwaysRunTransition c) (alwaysRunTransition r),
      skipMinIterations = nullish (cfg_skipMinIterations c) (skipMinIterations r),
      logger = (case cfg_logger c of Some l \<Rightarrow> Some l | None \<Rightarrow> logger r)\<rparr>"

text \<open>
  \<^verbatim>\<open>updateConfig\<close>: the outcome (what was thrown, or \<open>None\<close> when \<^verbatim>\<open>this\<close> is returned)
  and the processor after the call.
\<close>

definition updateConfig ::
  "('i, 's, 'a, 'r, 'w) processor \<Rightarrow> 'w iteration_config
   \<Rightarrow> thrown option \<times> ('i, 's, 'a, 'r, 'w) processor" where
  "updateConfig p c =
     (let newMaxIterations = nullish (cfg_maxIterations c) (maxIterations (config p));
          newMinIterations = nullish (cfg_minIterations c) (minIterations (config p))
      in if newMinIterations > newMaxIterations
         then (Some (Invalid_configuration newMinIterations newMaxIterations), p)
         else (None, p\<lparr>config := object_assign (config p) c\<rparr>))"

text \<open>\<^verbatim>\<open>{ ...this.config, ...config }\<close>\<close>

definition spread_config :: "'w resolved_config \<Rightarrow> 'w iteration_config \<Rightarrow> 'w iteration_config" where
  "spread_config r c =
     \<lparr>cfg_maxIterations = Some (nullish (cfg_maxIterations c) (maxIterations r)),
      cfg_targetScore = Some (nullish (cfg_targetScore c) (targetScore r)),
      cfg_earlyStopScore = Some (nullish (cfg_earlyStopScore c) (earlyStopScore r)),
      cfg_minIterations = Some (nullish (cfg_minIterations c) (minIterations r)),
      cfg_timeout = (case cfg_timeout c of Some t \<Rightarrow> Some t | None \<Rightarrow> timeout r),
      cfg_verbose = Some (nullish (cfg_verbose c) (verbose r)),
      cfg_alwaysRunTransition = Some (nullish (cfg_alwaysRunTransition c) (alwaysRunTransition r)),
      cfg_skipMinIterations = Some (nullish (cfg_skipMinIterations c) (skipMinIterations r)),
      cfg_logger = (case cfg_logger c of Some l \<Rightarrow> Some l | None \<Rightarrow> logger r)\<rparr>"

definition withConfig ::
  "('i, 's, 'a, 'r, 'w) processor \<Rightarrow> 'w iteration_config
   \<Rightarrow> thrown + ('i, 's, 'a, 'r, 'w) processor" where
  "withConfig p c = new_IterationProcessor (options p) (spread_config (config p) c)"

definition resetConfig :: "('i, 's, 'a, 'r, 'w) processor \<Rightarrow> ('i, 's, 'a, 'r, 'w) processor" where
  "resetConfig p = p\<lparr>config :=
     \<lparr>maxIterations = 5, targetScore = Fin 70, earlyStopScore = Fin 95, minIterations = 1,
      timeout = None, verbose = False, alwaysRunTransition = False,
      skipMinIterations = False, logger = None\<rparr>\<rparr>"

subsection \<open>The environment, the world and the trace\<close>

text \<open>
  What the processor uses from its surroundings: the clock (a reading may advance the
  world), the console (a call returns what it threw, if it threw), and \<^verbatim>\<open>JSON.stringify(data).length\<close>, which throws a TypeError
  when the data has no JSON text (\<^verbatim>\<open>undefined\<close>) or cannot be serialised.
\<close>

record ('a, 'w) environment =
  date_now :: "'w \<Rightarrow> int \<times> 'w"
  console_error :: "string \<Rightarrow> thrown \<Rightarrow> 'w \<Rightarrow> thrown option \<times> 'w"
  console_log :: "log_line \<Rightarrow> 'w \<Rightarrow> thrown option \<times> 'w"
  json_length :: "'a \<Rightarrow> thrown + nat"

text \<open>
  The trace records, in order, every event handed to \<^verbatim>\<open>emit\<close>, every listener invoked,
  every call of an error sink, every call of a callback with its arguments and its
  outcome, and every decision \<^verbatim>\<open>checkTermination\<close> returned to the loop, with the index
  of the iteration. It is a record of what happened; no callback reads it.
\<close>

datatype ('i, 's, 'a, 'r) observation =
    Emitted "('i, 's, 'a, 'r) iteration_event"
  | Listener_invoked nat "thrown option"
  | Logger_error string thrown
  | Console_error string thrown
  | Called_initialize 'i "thrown + 's"
  | Called_act 's iteration_context "thrown + 'a action_result"
  | Called_evaluate 's "'a action_result" iteration_context "thrown + evaluation"
  | Called_transition 's "'a action_result" evaluation iteration_context "thrown + 's"
  | Called_finalize 's "'a iteration_history list" "thrown + 'r"
  | Called_shouldTerminate 's evaluation iteration_context "thrown + bool"
  | Called_onError thrown "'s option" iteration_context "thrown + 'r"
  | Termination_checked int bool termination_reason

record ('i, 's, 'a, 'r, 'w) runtime =
  world :: 'w
  trace :: "('i, 's, 'a, 'r) observation list"

definition observe ::
  "('i, 's, 'a, 'r) observation \<Rightarrow> ('i, 's, 'a, 'r, 'w) runtime \<Rightarrow> ('i, 's, 'a, 'r, 'w) runtime" where
  "observe x rt = rt\<lparr>trace := trace rt @ [x]\<rparr>"

text \<open>\<^verbatim>\<open>Date.now()\<close>\<close>

definition now ::
  "('a, 'w) environment \<Rightarrow> ('i, 's, 'a, 'r, 'w) runtime \<Rightarrow> int \<times> ('i, 's, 'a, 'r, 'w) runtime" where
  "now env rt = (let (t, w) = date_now env (world rt) in (t, rt\<lparr>world := w\<rparr>))"

subsection \<open>emit and log\<close>

text \<open>The \<^verbatim>\<open>catch\<close> of \<^verbatim>\<open>emit\<close>: the logger's error sink if there is one, else the console.\<close>

definition listener_error_prefix :: string where
  "listener_error_prefix = ''[IteratoP] Event listener error:''"

definition report_listener_error ::
  "'w logger option \<Rightarrow> ('a, 'w) environment \<Rightarrow> thrown \<Rightarrow> ('i, 's, 'a, 'r, 'w) runtime
   \<Rightarrow> thrown option \<times> ('i, 's, 'a, 'r, 'w) runtime" where
  "report_listener_error lg env e rt =
     (case (case lg of None \<Rightarrow> None | Some l \<Rightarrow> lg_error l) of
        Some sink \<Rightarrow>
          (let (r, w) = sink listener_error_prefix e (world rt)
           in (r, observe (Logger_error listener_error_prefix e) (rt\<lparr>world := w\<rparr>)))
      | None \<Rightarrow>
          (let (r, w) = console_error env listener_error_prefix e (world rt)
           in (r, observe (Console_error listener_error_prefix e) (rt\<lparr>world := w\<rparr>))))"

text \<open>
  The \<^verbatim>\<open>for\<close> loop of \<^verbatim>\<open>emit\<close>; \<open>k\<close> is the position of the listener in the list. The
  call of the sink is not guarded: what the sink throws leaves the loop, and the
  listeners after it are not invoked.
\<close>

fun notify ::
  "('i, 's, 'a, 'r, 'w) listener list \<Rightarrow> nat \<Rightarrow> 'w logger option \<Rightarrow> ('a, 'w) environment
   \<Rightarrow> ('i, 's, 'a, 'r) iteration_event \<Rightarrow> ('i, 's, 'a, 'r, 'w) runtime
   \<Rightarrow> thrown option \<times> ('i, 's, 'a, 'r, 'w) runtime" where
  "notify [] k lg env ev rt = (None, rt)"
| "notify (l # ls) k lg env ev rt =
     (let (r, w) = l ev (world rt);
          rt1 = observe (Listener_invoked k r) (rt\<lparr>world := w\<rparr>)
      in case r of
           None \<Rightarrow> notify ls (Suc k) lg env ev rt1
         | Some e \<Rightarrow>
             (case report_listener_error lg env e rt1 of
                (Some e', rt2) \<Rightarrow> (Some e', rt2)
              | (None, rt2) \<Rightarrow> notify ls (Suc k) lg env ev rt2))"

text \<open>\<^verbatim>\<open>emit\<close> returns what left it, if anything did.\<close>

definition emit ::
  "('i, 's, 'a, 'r, 'w) processor \<Rightarrow> ('a, 'w) environment \<Rightarrow> ('i, 's, 'a, 'r) iteration_event
   \<Rightarrow> ('i, 's, 'a, 'r, 'w) runtime \<Rightarrow> thrown option \<times> ('i, 's, 'a, 'r, 'w) runtime" where
  "emit p env ev rt =
     notify (listeners p) 0 (logger (config p)) env ev (observe (Emitted ev) rt)"

text \<open>\<^verbatim>\<open>log\<close>: in verbose mode the line goes to the logger's log sink if there is one, else
  to the console; what the sink throws leaves \<^verbatim>\<open>log\<close>.\<close>

definition log ::
  "('i, 's, 'a, 'r, 'w) processor \<Rightarrow> ('a, 'w) environment \<Rightarrow> log_line
   \<Rightarrow> ('i, 's, 'a, 'r, 'w) runtime \<Rightarrow> thrown option \<times> ('i, 's, 'a, 'r, 'w) runtime" where
  "log p env line rt =
     (if verbose (config p)
      then (case (case logger (config p) of None \<Rightarrow> None | Some l \<Rightarrow> lg_log l) of
              Some sink \<Rightarrow> (let (r, w) = sink line (world rt) in (r, rt\<lparr>world := w\<rparr>))
            | None \<Rightarrow> (let (r, w) = console_log env line (world rt) in (r, rt\<lparr>world := w\<rparr>)))
      else (None, rt))"

text \<open>
  A call of \<^verbatim>\<open>emit\<close> or \<^verbatim>\<open>log\<close> inside a block: when it threw, the block is left through
  \<open>h\<close> with what was thrown; otherwise the block goes on with \<open>k\<close>. \<open>leave v\<close> leaves a
  block whose variables are \<open>v\<close>; \<open>reject\<close> leaves \<^verbatim>\<open>run\<close>.
\<close>

definition attempt :: "thrown option \<times> 'rt \<Rightarrow> (thrown \<Rightarrow> 'rt \<Rightarrow> 'y) \<Rightarrow> ('rt \<Rightarrow> 'y) \<Rightarrow> 'y" where
  "attempt m h k = (case fst m of Some e \<Rightarrow> h e (snd m) | None \<Rightarrow> k (snd m))"

definition leave :: "'v \<Rightarrow> thrown \<Rightarrow> 'rt \<Rightarrow> (thrown + 'x) \<times> 'v \<times> 'rt" where
  "leave v e rt = (Inl e, v, rt)"

definition reject :: "thrown \<Rightarrow> 'rt \<Rightarrow> (thrown + 'x) \<times> 'rt" where
  "reject e rt = (Inl e, rt)"

subsection \<open>checkTermination\<close>

text \<open>
  The result is what the custom check threw, or the pair of \<^verbatim>\<open>terminate\<close> and
  \<^verbatim>\<open>reason\<close>. The optional callback is called first, when there is one.
\<close>

definition checkTermination ::
  "('i, 's, 'a, 'r, 'w) processor \<Rightarrow> 's \<Rightarrow> evaluation \<Rightarrow> iteration_context \<Rightarrow> int
   \<Rightarrow> ('i, 's, 'a, 'r, 'w) runtime
   \<Rightarrow> (thrown + bool \<times> termination_reason) \<times> ('i, 's, 'a, 'r, 'w) runtime" where
  "checkTermination p st evaluation ctx iteration rt =
     (let (custom, rt1) =
            (case shouldTerminate (options p) of
               None \<Rightarrow> (Inr False, rt)
             | Some f \<Rightarrow>
                 (let (r, w) = f st evaluation ctx (world rt)
                  in (r, observe (Called_shouldTerminate st evaluation ctx r) (rt\<lparr>world := w\<rparr>))))
      in case custom of
           Inl e \<Rightarrow> (Inl e, rt1)
         | Inr True \<Rightarrow> (Inr (True, Manual_stop), rt1)
         | Inr False \<Rightarrow>
             (if num_ge (score evaluation) (earlyStopScore (config p))
              then (Inr (True, Early_stop), rt1)
              else if \<not> shouldContinue evaluation
              then (Inr (True, Converged), rt1)
              else if num_ge (score evaluation) (targetScore (config p))
              then (let minIterationsMet = (iteration \<ge> minIterations (config p) - 1)
                    in if minIterationsMet \<or> skipMinIterations (config p)
                       then (Inr (True, Converged), rt1)
                       else (Inr (False, Max_iterations), rt1))
              else (Inr (False, Max_iterations), rt1)))"

subsection \<open>run\<close>

text \<open>The calls of the callbacks, each recorded in the trace with its arguments.\<close>

definition call_initialize ::
  "('i, 's, 'a, 'r, 'w) processor \<Rightarrow> 'i \<Rightarrow> ('i, 's, 'a, 'r, 'w) runtime
   \<Rightarrow> (thrown + 's) \<times> ('i, 's, 'a, 'r, 'w) runtime" where
  "call_initialize p input rt =
     (let (r, w) = initialize (options p) input (world rt)
      in (r, observe (Called_initialize input r) (rt\<lparr>world := w\<rparr>)))"

definition call_act ::
  "('i, 's, 'a, 'r, 'w) processor \<Rightarrow> 's \<Rightarrow> iteration_context \<Rightarrow> ('i, 's, 'a, 'r, 'w) runtime
   \<Rightarrow> (thrown + 'a action_result) \<times> ('i, 's, 'a, 'r, 'w) runtime" where
  "call_act p st ctx rt =
     (let (r, w) = act (options p) st ctx (world rt)
      in (r, observe (Called_act st ctx r) (rt\<lparr>world := w\<rparr>)))"

definition call_evaluate ::
  "('i, 's, 'a, 'r, 'w) processor \<Rightarrow> 's \<Rightarrow> 'a action_result \<Rightarrow> iteration_context
   \<Rightarrow> ('i, 's, 'a, 'r, 'w) runtime \<Rightarrow> (thrown + evaluation) \<times> ('i, 's, 'a, 'r, 'w) runtime" where
  "call_evaluate p st actionResult ctx rt =
     (let (r, w) = evaluate (options p) st actionResult ctx (world rt)
      in (r, observe (Called_evaluate st actionResult ctx r) (rt\<lparr>world := w\<rparr>)))"

definition call_transition ::
  "('i, 's, 'a, 'r, 'w) processor \<Rightarrow> 's \<Rightarrow> 'a action_result \<Rightarrow> evaluation \<Rightarrow> iteration_context
   \<Rightarrow> ('i, 's, 'a, 'r, 'w) runtime \<Rightarrow> (thrown + 's) \<times> ('i, 's, 'a, 'r, 'w) runtime" where
  "call_transition p st actionResult evaluation ctx rt =
     (let (r, w) = transition (options p) st actionResult evaluation ctx (world rt)
      in (r, observe (Called_transition st actionResult evaluation ctx r) (rt\<lparr>world := w\<rparr>)))"

definition call_finalize ::
  "('i, 's, 'a, 'r, 'w) processor \<Rightarrow> 's \<Rightarrow> 'a iteration_history list
   \<Rightarrow> ('i, 's, 'a, 'r, 'w) runtime \<Rightarrow> (thrown + 'r) \<times> ('i, 's, 'a, 'r, 'w) runtime" where
  "call_finalize p st hist rt =
     (let (r, w) = finalize (options p) st hist (world rt)
      in (r, observe (Called_finalize st hist r) (rt\<lparr>world := w\<rparr>)))"

text \<open>\<^verbatim>\<open>history.reduce((sum, h) => sum + (h.actionResult.metadata?.cost ?? 0), 0)\<close>\<close>

definition action_cost :: "'a iteration_history \<Rightarrow> number" where
  "action_cost h =
     nullish (case ar_metadata (h_actionResult h) of None \<Rightarrow> None | Some m \<Rightarrow> cost m) (Fin 0)"

definition calculateTotalCost :: "'a iteration_history list \<Rightarrow> number" where
  "calculateTotalCost hist = foldl (\<lambda>sum h. num_add sum (action_cost h)) (Fin 0) hist"

text \<open>The variables of \<^verbatim>\<open>run\<close> that the loop changes.\<close>

record ('s, 'a) run_vars =
  v_state :: 's
  v_history :: "'a iteration_history list"
  v_finalEvaluation :: evaluation
  v_terminationReason :: termination_reason

datatype flow = Continue | Break

text \<open>The timeout check at the head of the loop body: the clock is read only when a
  truthy timeout is configured.\<close>

definition timeout_exceeded ::
  "('i, 's, 'a, 'r, 'w) processor \<Rightarrow> ('a, 'w) environment \<Rightarrow> int \<Rightarrow> ('i, 's, 'a, 'r, 'w) runtime
   \<Rightarrow> bool \<times> ('i, 's, 'a, 'r, 'w) runtime" where
  "timeout_exceeded p env startTime rt =
     (case timeout (config p) of
        None \<Rightarrow> (False, rt)
      | Some t \<Rightarrow>
          (if truthy t
           then (let (n, rt1) = now env rt in (num_gt (Fin (of_int (n - startTime))) t, rt1))
           else (False, rt)))"

text \<open>\<^verbatim>\<open>(!isLastIteration || alwaysRunTransition) && !shouldTerminate.terminate\<close>\<close>

definition shouldRunTransition :: "bool \<Rightarrow> bool \<Rightarrow> bool \<Rightarrow> bool" where
  "shouldRunTransition isLastIteration always terminate =
     ((\<not> isLastIteration \<or> always) \<and> \<not> terminate)"

text \<open>
  2c: the transition, when the gate lets it run. \<open>terminate\<close> is the decision of
  \<^verbatim>\<open>checkTermination\<close>.
\<close>

definition run_transition ::
  "('i, 's, 'a, 'r, 'w) processor \<Rightarrow> ('a, 'w) environment \<Rightarrow> int \<Rightarrow> iteration_context
   \<Rightarrow> 'a action_result \<Rightarrow> evaluation \<Rightarrow> bool \<Rightarrow> ('s, 'a) run_vars
   \<Rightarrow> ('i, 's, 'a, 'r, 'w) runtime
   \<Rightarrow> (thrown + unit) \<times> ('s, 'a) run_vars \<times> ('i, 's, 'a, 'r, 'w) runtime" where
  "run_transition p env i ctx actionResult evaluation terminate v rt =
     (let isLastIteration = (i = maxIterations (config p) - 1)
      in if shouldRunTransition isLastIteration (alwaysRunTransition (config p)) terminate
            \<or> (alwaysRunTransition (config p) \<and> terminate)
         then (case call_transition p (v_state v) actionResult evaluation ctx rt of
                 (Inl e, rt1) \<Rightarrow> (Inl e, v, rt1)
               | (Inr st', rt1) \<Rightarrow>
                   attempt (emit p env (Ev_transition_complete i st') rt1)
                     (leave (v\<lparr>v_state := st'\<rparr>))
                     (\<lambda>rt2. attempt (log p env Log_transition_complete rt2)
                        (leave (v\<lparr>v_state := st'\<rparr>))
                        (\<lambda>rt3. (Inr (), v\<lparr>v_state := st'\<rparr>, rt3))))
         else (Inr (), v, rt))"

text \<open>The termination check at the end of the loop body: the \<^verbatim>\<open>break\<close> when terminating.\<close>

definition check_stop ::
  "('i, 's, 'a, 'r, 'w) processor \<Rightarrow> ('a, 'w) environment \<Rightarrow> int \<Rightarrow> evaluation \<Rightarrow> bool
   \<Rightarrow> termination_reason \<Rightarrow> ('s, 'a) run_vars \<Rightarrow> ('i, 's, 'a, 'r, 'w) runtime
   \<Rightarrow> (thrown + flow) \<times> ('s, 'a) run_vars \<times> ('i, 's, 'a, 'r, 'w) runtime" where
  "check_stop p env i evaluation terminate reason v rt =
     (if terminate
      then attempt (log p env (Log_terminating reason (score evaluation)) rt)
             (leave (v\<lparr>v_terminationReason := reason\<rparr>))
             (\<lambda>rt1. attempt (emit p env (Ev_converged i (score evaluation)) rt1)
                (leave (v\<lparr>v_terminationReason := reason\<rparr>))
                (\<lambda>rt2. (Inr Break, v\<lparr>v_terminationReason := reason\<rparr>, rt2)))
      else (Inr Continue, v, rt))"

text \<open>
  The end of the loop body: the termination decision (recorded in the trace), the
  transition, and the termination check.
\<close>

definition transition_and_terminate ::
  "('i, 's, 'a, 'r, 'w) processor \<Rightarrow> ('a, 'w) environment \<Rightarrow> int \<Rightarrow> iteration_context
   \<Rightarrow> 'a action_result \<Rightarrow> evaluation \<Rightarrow> ('s, 'a) run_vars \<Rightarrow> ('i, 's, 'a, 'r, 'w) runtime
   \<Rightarrow> (thrown + flow) \<times> ('s, 'a) run_vars \<times> ('i, 's, 'a, 'r, 'w) runtime" where
  "transition_and_terminate p env i ctx actionResult evaluation v rt =
     (case checkTermination p (v_state v) evaluation ctx i rt of
        (Inl e, rt1) \<Rightarrow> (Inl e, v, rt1)
      | (Inr (terminate, reason), rt1) \<Rightarrow>
          (case run_transition p env i ctx actionResult evaluation terminate v
                  (observe (Termination_checked i terminate reason) rt1) of
             (Inl e, v2, rt2) \<Rightarrow> (Inl e, v2, rt2)
           | (Inr u, v2, rt2) \<Rightarrow> check_stop p env i evaluation terminate reason v2 rt2))"

text \<open>The loop body from the evaluation on: events, the history entry, then the rest.\<close>

definition record_iteration ::
  "('i, 's, 'a, 'r, 'w) processor \<Rightarrow> ('a, 'w) environment \<Rightarrow> int \<Rightarrow> int \<Rightarrow> iteration_context
   \<Rightarrow> 'a action_result \<Rightarrow> evaluation \<Rightarrow> ('s, 'a) run_vars \<Rightarrow> ('i, 's, 'a, 'r, 'w) runtime
   \<Rightarrow> (thrown + flow) \<times> ('s, 'a) run_vars \<times> ('i, 's, 'a, 'r, 'w) runtime" where
  "record_iteration p env iterationStart i ctx actionResult evaluation v rt =
     (let v1 = v\<lparr>v_finalEvaluation := evaluation\<rparr>
      in attempt (emit p env (Ev_evaluation_complete i evaluation) rt) (leave v1)
           (\<lambda>rt1. attempt (log p env (Log_evaluation_complete (score evaluation)
                                        (shouldContinue evaluation)) rt1) (leave v1)
              (\<lambda>rt2.
                 (let (ts, rt3) = now env rt2;
                      (t2, rt4) = now env rt3;
                      iterationHistory = \<lparr>h_iteration = i, h_actionResult = actionResult,
                         h_evaluation = evaluation, timestamp = ts,
                         duration = t2 - iterationStart\<rparr>;
                      v2 = v1\<lparr>v_history := v_history v1 @ [iterationHistory]\<rparr>
                  in attempt (emit p env (Ev_iteration_complete i iterationHistory) rt4)
                       (leave v2)
                       (\<lambda>rt5. transition_and_terminate p env i ctx actionResult evaluation
                                 v2 rt5)))))"

text \<open>One pass through the body of the \<^verbatim>\<open>for\<close> loop, at index \<open>i\<close>.\<close>

definition run_iteration ::
  "('i, 's, 'a, 'r, 'w) processor \<Rightarrow> ('a, 'w) environment \<Rightarrow> int \<Rightarrow> int
   \<Rightarrow> ('s, 'a) run_vars \<Rightarrow> ('i, 's, 'a, 'r, 'w) runtime
   \<Rightarrow> (thrown + flow) \<times> ('s, 'a) run_vars \<times> ('i, 's, 'a, 'r, 'w) runtime" where
  "run_iteration p env startTime i v rt =
     (let (iterationStart, rt1) = now env rt;
          (timedOut, rt2) = timeout_exceeded p env startTime rt1
      in if timedOut
         then attempt (log p env Log_timeout rt2) (leave v)
                (\<lambda>rt3. (Inr Break, v\<lparr>v_terminationReason := Timeout\<rparr>, rt3))
         else
           (let (t, rt3) = now env rt2;
                ctx = \<lparr>ctx_iteration = i, ctx_maxIterations = maxIterations (config p),
                   elapsedTime = t - startTime,
                   previousEvaluation = (if i > 0 then Some (v_finalEvaluation v) else None)\<rparr>
            in attempt (emit p env (Ev_iteration_start i) rt3) (leave v)
                 (\<lambda>rt4. attempt (log p env (Log_iteration_started (i + 1)
                                              (maxIterations (config p))) rt4) (leave v)
                    (\<lambda>rt5.
                       case call_act p (v_state v) ctx rt5 of
                         (Inl e, rt6) \<Rightarrow> (Inl e, v, rt6)
                       | (Inr actionResult, rt6) \<Rightarrow>
                           attempt (emit p env (Ev_action_complete i actionResult) rt6)
                             (leave v)
                             (\<lambda>rt7.
                                case json_length env (data actionResult) of
                                  Inl e \<Rightarrow> (Inl e, v, rt7)
                                | Inr dataSize \<Rightarrow>
                                    attempt (log p env (Log_action_complete dataSize) rt7)
                                      (leave v)
                                      (\<lambda>rt8.
                                         case call_evaluate p (v_state v) actionResult ctx rt8 of
                                           (Inl e, rt9) \<Rightarrow> (Inl e, v, rt9)
                                         | (Inr evaluation, rt9) \<Rightarrow>
                                             record_iteration p env iterationStart i ctx
                                               actionResult evaluation v rt9))))))"

text \<open>
  The \<^verbatim>\<open>for\<close> loop from index \<open>i\<close> on. The first component is what was thrown inside
  the loop, if anything; the variables are those at the time the loop was left.
\<close>

function run_loop ::
  "('i, 's, 'a, 'r, 'w) processor \<Rightarrow> ('a, 'w) environment \<Rightarrow> int \<Rightarrow> int
   \<Rightarrow> ('s, 'a) run_vars \<Rightarrow> ('i, 's, 'a, 'r, 'w) runtime
   \<Rightarrow> thrown option \<times> ('s, 'a) run_vars \<times> ('i, 's, 'a, 'r, 'w) runtime" where
  "run_loop p env startTime i v rt =
     (if i < maxIterations (config p)
      then (case run_iteration p env startTime i v rt of
              (Inl e, v', rt') \<Rightarrow> (Some e, v', rt')
            | (Inr Break, v', rt') \<Rightarrow> (None, v', rt')
            | (Inr Continue, v', rt') \<Rightarrow> run_loop p env startTime (i + 1) v' rt')
      else (None, v, rt))"
  by pat_completeness auto
termination
  by (relation "measure (\<lambda>(p, env, startTime, i, v, rt). nat (maxIterations (config p) - i))") auto

declare run_loop.simps [simp del]

text \<open>After the loop: finalize, the result, the \<^verbatim>\<open>complete\<close> event.\<close>

definition finish_run ::
  "('i, 's, 'a, 'r, 'w) processor \<Rightarrow> ('a, 'w) environment \<Rightarrow> int \<Rightarrow> ('s, 'a) run_vars
   \<Rightarrow> ('i, 's, 'a, 'r, 'w) runtime
   \<Rightarrow> (thrown + ('r, 'a) iteration_result) \<times> ('i, 's, 'a, 'r, 'w) runtime" where
  "finish_run p env startTime v rt =
     (case call_finalize p (v_state v) (v_history v) rt of
        (Inl e, rt1) \<Rightarrow> (Inl e, rt1)
      | (Inr res, rt1) \<Rightarrow>
          (let cost_sum = foldl (\<lambda>sum h. num_add sum (action_cost h)) (Fin 0) (v_history v);
               (t, rt2) = now env rt1;
               iterationResult = \<lparr>result = res,
                  iterations = length (v_history v),
                  finalScore = score (v_finalEvaluation v),
                  converged = num_ge (score (v_finalEvaluation v)) (targetScore (config p)),
                  terminationReason = v_terminationReason v,
                  totalCost = cost_sum,
                  totalLatency = t - startTime,
                  history = v_history v\<rparr>
           in attempt (emit p env (Ev_complete iterationResult) rt2) reject
                (\<lambda>rt3. attempt (log p env (Log_loop_complete (iterations iterationResult)
                                   (finalScore iterationResult) (converged iterationResult)
                                   (terminationReason iterationResult)) rt3) reject
                   (\<lambda>rt4. (Inr iterationResult, rt4)))))"

text \<open>The initial value of \<^verbatim>\<open>finalEvaluation\<close>.\<close>

definition initial_evaluation :: evaluation where
  "initial_evaluation = \<lparr>score = Fin 0, shouldContinue = True, feedback = [],
     missingInfo = None, ev_metadata = None\<rparr>"

text \<open>The variables at the head of the loop, once initialize has returned \<open>st\<close>.\<close>

definition initial_vars :: "'s \<Rightarrow> ('s, 'a) run_vars" where
  "initial_vars st = \<lparr>v_state = st, v_history = [], v_finalEvaluation = initial_evaluation,
     v_terminationReason = Max_iterations\<rparr>"

text \<open>
  What the \<^verbatim>\<open>catch\<close> block reads of the variables: \<^verbatim>\<open>state\<close> (undefined until initialize
  has returned), \<^verbatim>\<open>history\<close> and \<^verbatim>\<open>finalEvaluation\<close>.
\<close>

definition caught ::
  "('s, 'a) run_vars \<Rightarrow> 's option \<times> 'a iteration_history list \<times> evaluation" where
  "caught v = (Some (v_state v), v_history v, v_finalEvaluation v)"

text \<open>The \<^verbatim>\<open>try\<close> block from the end of the loop on.\<close>

definition end_try ::
  "('i, 's, 'a, 'r, 'w) processor \<Rightarrow> ('a, 'w) environment \<Rightarrow> int
   \<Rightarrow> thrown option \<times> ('s, 'a) run_vars \<times> ('i, 's, 'a, 'r, 'w) runtime
   \<Rightarrow> (thrown + ('r, 'a) iteration_result)
       \<times> ('s option \<times> 'a iteration_history list \<times> evaluation)
       \<times> ('i, 's, 'a, 'r, 'w) runtime" where
  "end_try p env startTime l =
     (case l of
        (Some e, v, rt) \<Rightarrow> (Inl e, caught v, rt)
      | (None, v, rt) \<Rightarrow>
          (case finish_run p env startTime v rt of (r, rt1) \<Rightarrow> (r, caught v, rt1)))"

text \<open>
  The \<^verbatim>\<open>try\<close> block. Besides its outcome it returns the variables the \<^verbatim>\<open>catch\<close>
  block reads.
\<close>

definition run_try ::
  "('i, 's, 'a, 'r, 'w) processor \<Rightarrow> ('a, 'w) environment \<Rightarrow> 'i \<Rightarrow> int
   \<Rightarrow> ('i, 's, 'a, 'r, 'w) runtime
   \<Rightarrow> (thrown + ('r, 'a) iteration_result)
       \<times> ('s option \<times> 'a iteration_history list \<times> evaluation)
       \<times> ('i, 's, 'a, 'r, 'w) runtime" where
  "run_try p env input startTime rt =
     (case call_initialize p input rt of
        (Inl e, rt1) \<Rightarrow> (Inl e, (None, [], initial_evaluation), rt1)
      | (Inr st, rt1) \<Rightarrow>
          attempt (log p env Log_initialized rt1) (leave (Some st, [], initial_evaluation))
            (\<lambda>rt2. end_try p env startTime
                      (run_loop p env startTime 0 (initial_vars st) rt2)))"

text \<open>The \<^verbatim>\<open>catch\<close> block.\<close>

definition run_catch ::
  "('i, 's, 'a, 'r, 'w) processor \<Rightarrow> ('a, 'w) environment \<Rightarrow> int \<Rightarrow> thrown \<Rightarrow> 's option
   \<Rightarrow> 'a iteration_history list \<Rightarrow> evaluation \<Rightarrow> ('i, 's, 'a, 'r, 'w) runtime
   \<Rightarrow> (thrown + ('r, 'a) iteration_result) \<times> ('i, 's, 'a, 'r, 'w) runtime" where
  "run_catch p env startTime error st hist finalEval rt =
     (let err = as_error error
      in attempt (emit p env (Ev_error err (length hist) st) rt) reject
           (\<lambda>rt1. attempt (log p env (Log_error err) rt1) reject
              (\<lambda>rt2.
                 case onError (options p) of
                   None \<Rightarrow> (Inl error, rt2)
                 | Some handler \<Rightarrow>
                     (let (t, rt3) = now env rt2;
                          ctx = \<lparr>ctx_iteration = int (length hist),
                             ctx_maxIterations = maxIterations (config p),
                             elapsedTime = t - startTime,
                             previousEvaluation = Some finalEval\<rparr>;
                          (r, w) = handler err st ctx (world rt3);
                          rt4 = observe (Called_onError err st ctx r) (rt3\<lparr>world := w\<rparr>)
                      in case r of
                           Inl e \<Rightarrow> (Inl e, rt4)
                         | Inr fallbackResult \<Rightarrow>
                             (let cost_sum = foldl (\<lambda>sum h. num_add sum (action_cost h))
                                               (Fin 0) hist;
                                  (t2, rt5) = now env rt4
                              in (Inr \<lparr>result = fallbackResult,
                                      iterations = length hist,
                                      finalScore = score finalEval,
                                      converged = False,
                                      terminationReason = Manual_stop,
                                      totalCost = cost_sum,
                                      totalLatency = t2 - startTime,
                                      history = hist\<rparr>, rt5))))))"

text \<open>What \<^verbatim>\<open>run\<close> does with the outcome of the \<^verbatim>\<open>try\<close> block.\<close>

definition settle ::
  "('i, 's, 'a, 'r, 'w) processor \<Rightarrow> ('a, 'w) environment \<Rightarrow> int
   \<Rightarrow> (thrown + ('r, 'a) iteration_result)
       \<times> ('s option \<times> 'a iteration_history list \<times> evaluation)
       \<times> ('i, 's, 'a, 'r, 'w) runtime
   \<Rightarrow> (thrown + ('r, 'a) iteration_result) \<times> ('i, 's, 'a, 'r, 'w) runtime" where
  "settle p env startTime t =
     (case t of
        (Inr res, c, rt) \<Rightarrow> (Inr res, rt)
      | (Inl e, (st, hist, finalEval), rt) \<Rightarrow> run_catch p env startTime e st hist finalEval rt)"

text \<open>
  \<^verbatim>\<open>run\<close>: \<open>Inr\<close> is the result the promise resolves with, \<open>Inl\<close> what it rejects with.
  The \<open>start\<close> event and the first log line come before the \<^verbatim>\<open>try\<close>.
\<close>

definition run ::
  "('i, 's, 'a, 'r, 'w) processor \<Rightarrow> ('a, 'w) environment \<Rightarrow> 'i \<Rightarrow> ('i, 's, 'a, 'r, 'w) runtime
   \<Rightarrow> (thrown + ('r, 'a) iteration_result) \<times> ('i, 's, 'a, 'r, 'w) runtime" where
  "run p env input rt =
     (let (startTime, rt1) = now env rt
      in attempt (emit p env (Ev_start input) rt1) reject
           (\<lambda>rt2. attempt (log p env (Log_starting (maxIterations (config p))) rt2) reject
              (\<lambda>rt3. settle p env startTime (run_try p env input startTime rt3))))"

subsection \<open>The streaming controller (stream.ts)\<close>

record ('s, 'a) streaming_state =
  ss_iteration :: int
  ss_state :: 's
  ss_evaluation :: "evaluation option"
  ss_actionResult :: "'a action_result option"
  ss_converged :: bool
  timedOut :: "bool option"
  ss_context :: iteration_context

text \<open>
  The callbacks as \<^verbatim>\<open>executeStream\<close> treats them: it tests \<^verbatim>\<open>transition\<close> and
  \<^verbatim>\<open>finalize\<close> before calling them (the declared type, \<^verbatim>\<open>IterationOptions\<close>, requires
  both, and the builder supplies the identity for a missing transition), and it never
  reads \<^verbatim>\<open>shouldTerminate\<close> or \<^verbatim>\<open>onError\<close>.
\<close>

record ('i, 's, 'a, 'r, 'w) streaming_callbacks =
  sc_initialize :: "'i \<Rightarrow> 'w \<Rightarrow> (thrown + 's) \<times> 'w"
  sc_act :: "'s \<Rightarrow> iteration_context \<Rightarrow> 'w \<Rightarrow> (thrown + 'a action_result) \<times> 'w"
  sc_evaluate :: "'s \<Rightarrow> 'a action_result \<Rightarrow> iteration_context \<Rightarrow> 'w \<Rightarrow> (thrown + evaluation) \<times> 'w"
  sc_transition :: "('s \<Rightarrow> 'a action_result \<Rightarrow> evaluation \<Rightarrow> iteration_context \<Rightarrow> 'w
                     \<Rightarrow> (thrown + 's) \<times> 'w) option"
  sc_finalize :: "('s \<Rightarrow> 'a iteration_history list \<Rightarrow> 'w \<Rightarrow> (thrown + 'r) \<times> 'w) option"
  sc_shouldTerminate :: "('s \<Rightarrow> evaluation \<Rightarrow> iteration_context \<Rightarrow> 'w \<Rightarrow> (thrown + bool) \<times> 'w) option"
  sc_onError :: "(thrown \<Rightarrow> 's option \<Rightarrow> iteration_context \<Rightarrow> 'w \<Rightarrow> (thrown + 'r) \<times> 'w) option"

text \<open>The class \<^verbatim>\<open>StreamingIteratoP\<close>: its \<^verbatim>\<open>config\<close> holds the callbacks, its
  \<^verbatim>\<open>options\<close> the optional configuration.\<close>

record ('i, 's, 'a, 'r, 'w) streaming_iteratop =
  s_config :: "('i, 's, 'a, 'r, 'w) streaming_callbacks"
  s_options :: "'w iteration_config option"

text \<open>\<^verbatim>\<open>this.options?.x ?? d\<close>\<close>

definition stream_option ::
  "'w iteration_config option \<Rightarrow> ('w iteration_config \<Rightarrow> 'x option) \<Rightarrow> 'x option" where
  "stream_option c field = (case c of None \<Rightarrow> None | Some c' \<Rightarrow> field c')"

text \<open>
  The variables the \<^verbatim>\<open>while\<close> loop changes, but for the counter \<^verbatim>\<open>iteration\<close>: the
  loop function carries it as an argument, since nothing reads it after the loop.
\<close>

record ('s, 'a) stream_vars =
  sv_currentState :: 's
  sv_converged :: bool
  sv_history :: "'a iteration_history list"
  sv_states :: "('s, 'a) streaming_state list"

text \<open>\<^verbatim>\<open>history[history.length - 1]?.evaluation\<close>\<close>

definition last_evaluation :: "'a iteration_history list \<Rightarrow> evaluation option" where
  "last_evaluation hist = (if hist = [] then None else Some (h_evaluation (last hist)))"

text \<open>The convergence check of the streaming loop; \<open>c\<close> is \<^verbatim>\<open>converged\<close> before it.\<close>

definition check_convergence ::
  "bool \<Rightarrow> number \<Rightarrow> int \<Rightarrow> int \<Rightarrow> evaluation \<Rightarrow> bool \<Rightarrow> bool" where
  "check_convergence skipMin target minIts iteration evaluation c =
     (if skipMin \<and> num_ge (score evaluation) target then True
      else if num_ge (score evaluation) target \<and> iteration \<ge> minIts then True
      else if \<not> shouldContinue evaluation \<and> iteration \<ge> minIts then True
      else c)"

text \<open>
  The body of the \<^verbatim>\<open>while\<close> loop after the timeout check, from \<^verbatim>\<open>iteration++\<close> on;
  \<open>it\<close> is the counter before the increment.
\<close>

definition stream_step ::
  "('i, 's, 'a, 'r, 'w) streaming_iteratop \<Rightarrow> ('a, 'w) environment \<Rightarrow> int \<Rightarrow> int
   \<Rightarrow> int \<Rightarrow> ('s, 'a) stream_vars \<Rightarrow> ('i, 's, 'a, 'r, 'w) runtime
   \<Rightarrow> (thrown + flow) \<times> ('s, 'a) stream_vars \<times> ('i, 's, 'a, 'r, 'w) runtime" where
  "stream_step sp env startTime iterationStartTime it v rt =
     (let maxIts = nullish (stream_option (s_options sp) cfg_maxIterations) 5;
          minIts = nullish (stream_option (s_options sp) cfg_minIterations) 1;
          target = nullish (stream_option (s_options sp) cfg_targetScore) (Fin 70);
          skipMin = nullish (stream_option (s_options sp) cfg_skipMinIterations) False;
          iteration = it + 1;
          (t, rt1) = now env rt;
          ctx = \<lparr>ctx_iteration = iteration, ctx_maxIterations = maxIts,
             elapsedTime = t - startTime,
             previousEvaluation = last_evaluation (sv_history v)\<rparr>;
          (r, w) = sc_act (s_config sp) (sv_currentState v) ctx (world rt1);
          rt2 = observe (Called_act (sv_currentState v) ctx r) (rt1\<lparr>world := w\<rparr>)
      in case r of
           Inl e \<Rightarrow> (Inl e, v, rt2)
         | Inr actionResult \<Rightarrow>
             (let (r2, w2) = sc_evaluate (s_config sp) (sv_currentState v) actionResult ctx (world rt2);
                  rt3 = observe (Called_evaluate (sv_currentState v) actionResult ctx r2)
                          (rt2\<lparr>world := w2\<rparr>)
              in case r2 of
                   Inl e \<Rightarrow> (Inl e, v, rt3)
                 | Inr evaluation \<Rightarrow>
                     (let (ts, rt4) = now env rt3;
                          (t2, rt5) = now env rt4;
                          v2 = v\<lparr>sv_history := sv_history v @
                                 [\<lparr>h_iteration = iteration, h_actionResult = actionResult,
                                   h_evaluation = evaluation, timestamp = ts,
                                   duration = t2 - iterationStartTime\<rparr>]\<rparr>;
                          v3 = v2\<lparr>sv_converged :=
                                 check_convergence skipMin target minIts iteration evaluation
                                   (sv_converged v2)\<rparr>;
                          (thrown_by_transition, v4, rt6) =
                            (case (if \<not> sv_converged v3 then sc_transition (s_config sp) else None) of
                               None \<Rightarrow> (None, v3, rt5)
                             | Some f \<Rightarrow>
                                 (let (r3, w3) = f (sv_currentState v3) actionResult evaluation ctx
                                                   (world rt5);
                                      rt' = observe (Called_transition (sv_currentState v3)
                                                       actionResult evaluation ctx r3)
                                              (rt5\<lparr>world := w3\<rparr>)
                                  in case r3 of
                                       Inl e \<Rightarrow> (Some e, v3, rt')
                                     | Inr st' \<Rightarrow> (None, v3\<lparr>sv_currentState := st'\<rparr>, rt')))
                      in case thrown_by_transition of
                           Some e \<Rightarrow> (Inl e, v4, rt6)
                         | None \<Rightarrow>
                             (let v5 = v4\<lparr>sv_states := sv_states v4 @
                                          [\<lparr>ss_iteration = iteration,
                                            ss_state = sv_currentState v4,
                                            ss_evaluation = Some evaluation,
                                            ss_actionResult = Some actionResult,
                                            ss_converged = sv_converged v4,
                                            timedOut = None,
                                            ss_context = ctx\<rparr>]\<rparr>
                              in (Inr (if sv_converged v5 then Break else Continue), v5, rt6)))))"

text \<open>One pass through the body of the \<^verbatim>\<open>while\<close> loop, entered with the counter at \<open>it\<close>.\<close>

definition stream_iteration ::
  "('i, 's, 'a, 'r, 'w) streaming_iteratop \<Rightarrow> ('a, 'w) environment \<Rightarrow> int \<Rightarrow> int
   \<Rightarrow> ('s, 'a) stream_vars \<Rightarrow> ('i, 's, 'a, 'r, 'w) runtime
   \<Rightarrow> (thrown + flow) \<times> ('s, 'a) stream_vars \<times> ('i, 's, 'a, 'r, 'w) runtime" where
  "stream_iteration sp env startTime it v rt =
     (let maxIts = nullish (stream_option (s_options sp) cfg_maxIterations) 5;
          (iterationStartTime, rt1) = now env rt;
          (timed_out, rt2) =
            (case stream_option (s_options sp) cfg_timeout of
               None \<Rightarrow> (False, rt1)
             | Some t \<Rightarrow>
                 (if truthy t
                  then (let (n, rt') = now env rt1
                        in (num_gt (Fin (of_int (n - startTime))) t, rt'))
                  else (False, rt1)))
      in if timed_out
         then (let (t, rt3) = now env rt2;
                   ctx = \<lparr>ctx_iteration = it + 1, ctx_maxIterations = maxIts,
                      elapsedTime = t - startTime,
                      previousEvaluation = last_evaluation (sv_history v)\<rparr>
               in (Inr Break,
                   v\<lparr>sv_states := sv_states v @
                       [\<lparr>ss_iteration = it + 1, ss_state = sv_currentState v,
                         ss_evaluation = None, ss_actionResult = None, ss_converged = False,
                         timedOut = Some True, ss_context = ctx\<rparr>]\<rparr>,
                   rt3))
         else stream_step sp env startTime iterationStartTime it v rt2)"

function stream_loop ::
  "('i, 's, 'a, 'r, 'w) streaming_iteratop \<Rightarrow> ('a, 'w) environment \<Rightarrow> int \<Rightarrow> int
   \<Rightarrow> ('s, 'a) stream_vars \<Rightarrow> ('i, 's, 'a, 'r, 'w) runtime
   \<Rightarrow> thrown option \<times> ('s, 'a) stream_vars \<times> ('i, 's, 'a, 'r, 'w) runtime" where
  "stream_loop sp env startTime it v rt =
     (if it < nullish (stream_option (s_options sp) cfg_maxIterations) 5 \<and> \<not> sv_converged v
      then (case stream_iteration sp env startTime it v rt of
              (Inl e, v', rt') \<Rightarrow> (Some e, v', rt')
            | (Inr Break, v', rt') \<Rightarrow> (None, v', rt')
            | (Inr Continue, v', rt') \<Rightarrow> stream_loop sp env startTime (it + 1) v' rt')
      else (None, v, rt))"
  by pat_completeness auto
termination
  by (relation "measure (\<lambda>(sp, env, startTime, it, v, rt).
        nat (nullish (stream_option (s_options sp) cfg_maxIterations) 5 - it))") auto

declare stream_loop.simps [simp del]

text \<open>
  \<^verbatim>\<open>executeStream\<close>: the list of states behind the stream it resolves with, or what it
  rejects with (the \<^verbatim>\<open>catch\<close> rethrows).
\<close>

definition executeStream ::
  "('i, 's, 'a, 'r, 'w) streaming_iteratop \<Rightarrow> ('a, 'w) environment \<Rightarrow> 'i
   \<Rightarrow> ('i, 's, 'a, 'r, 'w) runtime
   \<Rightarrow> (thrown + ('s, 'a) streaming_state list) \<times> ('i, 's, 'a, 'r, 'w) runtime" where
  "executeStream sp env input rt =
     (let (r, w) = sc_initialize (s_config sp) input (world rt);
          rt1 = observe (Called_initialize input r) (rt\<lparr>world := w\<rparr>)
      in case r of
           Inl e \<Rightarrow> (Inl e, rt1)
         | Inr initialState \<Rightarrow>
             (let maxIts = nullish (stream_option (s_options sp) cfg_maxIterations) 5;
                  (startTime, rt2) = now env rt1;
                  initialContext = \<lparr>ctx_iteration = 0, ctx_maxIterations = maxIts,
                     elapsedTime = 0, previousEvaluation = None\<rparr>;
                  v0 = \<lparr>sv_currentState = initialState, sv_converged = False, sv_history = [],
                     sv_states = [\<lparr>ss_iteration = 0, ss_state = initialState,
                        ss_evaluation = None, ss_actionResult = None, ss_converged = False,
                        timedOut = None, ss_context = initialContext\<rparr>]\<rparr>
              in case stream_loop sp env startTime 0 v0 rt2 of
                   (Some e, v, rt3) \<Rightarrow> (Inl e, rt3)
                 | (None, v, rt3) \<Rightarrow>
                     (case sc_finalize (s_config sp) of
                        None \<Rightarrow> (Inr (sv_states v), rt3)
                      | Some f \<Rightarrow>
                          (let (r2, w2) = f (sv_currentState v) (sv_history v) (world rt3);
                               rt4 = observe (Called_finalize (sv_currentState v) (sv_history v) r2)
                                       (rt3\<lparr>world := w2\<rparr>)
                           in case r2 of
                                Inl e \<Rightarrow> (Inl e, rt4)
                              | Inr x \<Rightarrow> (Inr (sv_states v), rt4)))))"

subsection \<open>Reading the trace\<close>

text \<open>
  The entries a listener causes (its invocation and the report of what it threw) are
  notifications; \<open>steps\<close> is the trace without them: the events emitted and the
  callbacks called.
\<close>

fun is_notification :: "('i, 's, 'a, 'r) observation \<Rightarrow> bool" where
  "is_notification (Listener_invoked k r) = True"
| "is_notification (Logger_error m e) = True"
| "is_notification (Console_error m e) = True"
| "is_notification _ = False"

definition steps :: "('i, 's, 'a, 'r) observation list \<Rightarrow> ('i, 's, 'a, 'r) observation list" where
  "steps tr = filter (\<lambda>x. \<not> is_notification x) tr"






text \<open>
  What a call of a phase or of the custom termination check threw, if it threw;
  \<open>failures\<close> collects these over a trace.
\<close>

fun thrown_by :: "('i, 's, 'a, 'r) observation \<Rightarrow> thrown option" where
  "thrown_by (Called_initialize x (Inl e)) = Some e"
| "thrown_by (Called_act st ctx (Inl e)) = Some e"
| "thrown_by (Called_evaluate st ar ctx (Inl e)) = Some e"
| "thrown_by (Called_transition st ar ev ctx (Inl e)) = Some e"
| "thrown_by (Called_finalize st hist (Inl e)) = Some e"
| "thrown_by (Called_shouldTerminate st ev ctx (Inl e)) = Some e"
| "thrown_by _ = None"

text \<open>
  The context a call of act, evaluate or transition received.
\<close>

fun passed_context :: "('i, 's, 'a, 'r) observation \<Rightarrow> iteration_context option" where
  "passed_context (Called_act st ctx r) = Some ctx"
| "passed_context (Called_evaluate st ar ctx r) = Some ctx"
| "passed_context (Called_transition st ar ev ctx r) = Some ctx"
| "passed_context _ = None"

text \<open>
  The evaluations that the evaluate phase returned when called with a context of
  iteration \<open>k\<close>.
\<close>

fun evaluated_at :: "int \<Rightarrow> ('i, 's, 'a, 'r) observation \<Rightarrow> evaluation list" where
  "evaluated_at k (Called_evaluate st ar ctx (Inr e)) = (if ctx_iteration ctx = k then [e] else [])"
| "evaluated_at k _ = []"

definition evaluations_at :: "int \<Rightarrow> ('i, 's, 'a, 'r) observation list \<Rightarrow> evaluation list" where
  "evaluations_at k tr = concat (map (evaluated_at k) tr)"

text \<open>
  The calls of initialize.
\<close>

fun is_initialize_call :: "('i, 's, 'a, 'r) observation \<Rightarrow> bool" where
  "is_initialize_call (Called_initialize x r) = True"
| "is_initialize_call _ = False"

definition failures :: "('i, 's, 'a, 'r) observation list \<Rightarrow> thrown list" where
  "failures tr = List.map_filter thrown_by tr"

text \<open>
  What a step that ended with \<open>r\<close> adds to the failures of the trace.
\<close>

definition failure_of :: "thrown + 'x \<Rightarrow> thrown list" where
  "failure_of r = (case r of Inl e \<Rightarrow> [e] | Inr x \<Rightarrow> [])"

text \<open>
  A context is as expected with respect to a trace: at iteration 0 it carries no
  previous evaluation, later the one evaluation returned in the iteration before;
  \<open>contexts_ok\<close> says so of every context passed in the trace.
\<close>

definition context_ok :: "('i, 's, 'a, 'r) observation list \<Rightarrow> iteration_context \<Rightarrow> bool" where
  "context_ok tr ctx =
     (0 \<le> ctx_iteration ctx \<and>
      (if ctx_iteration ctx = 0 then previousEvaluation ctx = None
       else (case previousEvaluation ctx of
               None \<Rightarrow> False
             | Some e \<Rightarrow> evaluations_at (ctx_iteration ctx - 1) tr = [e])))"

definition contexts_ok :: "('i, 's, 'a, 'r) observation list \<Rightarrow> bool" where
  "contexts_ok tr =
     list_all (\<lambda>x. case passed_context x of None \<Rightarrow> True | Some ctx \<Rightarrow> context_ok tr ctx) tr"

text \<open>
  What holds of the steps of the trace when the \<^verbatim>\<open>for\<close> loop of \<^verbatim>\<open>run\<close> is at \<open>i\<close>
  with \<^verbatim>\<open>finalEvaluation\<close> equal to \<open>fe\<close>.
\<close>

definition loop_invariant ::
  "int \<Rightarrow> evaluation \<Rightarrow> ('i, 's, 'a, 'r) observation list \<Rightarrow> bool" where
  "loop_invariant i fe tr =
     (0 \<le> i \<and>
      (\<forall>x\<in>set tr. \<forall>ctx. passed_context x = Some ctx \<longrightarrow>
         ctx_iteration ctx < i \<and> context_ok tr ctx) \<and>
      (\<forall>k\<ge>i. evaluations_at k tr = []) \<and>
      (0 < i \<longrightarrow> evaluations_at (i - 1) tr = [fe]))"

text \<open>
  The convergence rule of the streaming controller as its description states it, for
  the evaluation \<open>ev\<close> of the iteration counted \<open>n\<close>, under the optional configuration
  \<open>c\<close> with the defaults of \<^verbatim>\<open>executeStream\<close>. It is compared below with
  \<open>check_convergence\<close>, which follows the code.
\<close>

definition converges_by_rule :: "'w iteration_config option \<Rightarrow> int \<Rightarrow> evaluation \<Rightarrow> bool" where
  "converges_by_rule c n ev =
     ((nullish (stream_option c cfg_skipMinIterations) False
         \<and> num_ge (score ev) (nullish (stream_option c cfg_targetScore) (Fin 70)))
      \<or> (num_ge (score ev) (nullish (stream_option c cfg_targetScore) (Fin 70))
         \<and> n \<ge> nullish (stream_option c cfg_minIterations) 1)
      \<or> (\<not> shouldContinue ev \<and> n \<ge> nullish (stream_option c cfg_minIterations) 1))"

text \<open>
  The iteration numbers of the contexts passed to act, in the order of the calls.
\<close>

fun acted_at :: "('i, 's, 'a, 'r) observation \<Rightarrow> int list" where
  "acted_at (Called_act st ctx r) = [ctx_iteration ctx]"
| "acted_at _ = []"

definition act_iterations :: "('i, 's, 'a, 'r) observation list \<Rightarrow> int list" where
  "act_iterations tr = concat (map acted_at tr)"

text \<open>
  The calls of transition made with a context whose iteration is \<open>k\<close>.
\<close>

fun transitioned_at :: "int \<Rightarrow> ('i, 's, 'a, 'r) observation \<Rightarrow> bool" where
  "transitioned_at k (Called_transition st ar ev ctx r) = (ctx_iteration ctx = k)"
| "transitioned_at k _ = False"

definition transitions_at ::
  "int \<Rightarrow> ('i, 's, 'a, 'r) observation list \<Rightarrow> ('i, 's, 'a, 'r) observation list" where
  "transitions_at k tr = filter (transitioned_at k) tr"

text \<open>
  What holds of the trace when the streaming loop has counted \<open>k\<close> iterations: act was
  called once for each of 1 to \<open>k\<close>, nothing is recorded beyond \<open>k\<close>, and after each
  evaluation transition was called once, or not at all when the rule says converged.
\<close>

definition stream_trace_ok ::
  "'w iteration_config option \<Rightarrow> int \<Rightarrow> ('i, 's, 'a, 'r) observation list \<Rightarrow> bool" where
  "stream_trace_ok c k tr =
     (0 \<le> k \<and> act_iterations tr = [1..k] \<and>
      (\<forall>n>k. evaluations_at n tr = [] \<and> transitions_at n tr = []) \<and>
      (\<forall>n ev. ev \<in> set (evaluations_at n tr) \<longrightarrow>
         length (transitions_at n tr) = (if converges_by_rule c n ev then 0 else 1)))"

text \<open>
  A state of the stream carries the flag the rule gives for its evaluation; a state
  without evaluation (the initial one, a timed out one) is not converged.
\<close>

definition state_ok :: "'w iteration_config option \<Rightarrow> ('s, 'a) streaming_state \<Rightarrow> bool" where
  "state_ok c s =
     (ss_converged s =
        (case ss_evaluation s of
           None \<Rightarrow> False
         | Some ev \<Rightarrow> converges_by_rule c (ss_iteration s) ev))"

text \<open>
  What holds of the states collected when the loop has counted \<open>k\<close> iterations.
\<close>

definition stream_states_ok ::
  "'w iteration_config option \<Rightarrow> int \<Rightarrow> ('s, 'a) streaming_state list \<Rightarrow> bool" where
  "stream_states_ok c k states =
     (0 \<le> k \<and> map ss_iteration states = [0..k] \<and> list_all (state_ok c) states)"

text \<open>
  The same streaming controller constructed with \<^verbatim>\<open>alwaysRunTransition\<close>,
  \<^verbatim>\<open>earlyStopScore\<close> and \<^verbatim>\<open>shouldTerminate\<close> set to \<open>a\<close>, \<open>b\<close> and \<open>t\<close>.
\<close>

definition with_batch_rules ::
  "bool option \<Rightarrow> number option
   \<Rightarrow> ('s \<Rightarrow> evaluation \<Rightarrow> iteration_context \<Rightarrow> 'w \<Rightarrow> (thrown + bool) \<times> 'w) option
   \<Rightarrow> ('i, 's, 'a, 'r, 'w) streaming_iteratop \<Rightarrow> ('i, 's, 'a, 'r, 'w) streaming_iteratop" where
  "with_batch_rules a b t sp =
     sp\<lparr>s_config := (s_config sp)\<lparr>sc_shouldTerminate := t\<rparr>,
        s_options := Some ((case s_options sp of None \<Rightarrow> empty_config | Some c \<Rightarrow> c)
                            \<lparr>cfg_alwaysRunTransition := a, cfg_earlyStopScore := b\<rparr>)\<rparr>"

subsection \<open>Reading a run\<close>

text \<open>
  The state last returned by initialize or by a transition, if any: the last known
  state.
\<close>

fun returned_state :: "('i, 's, 'a, 'r) observation \<Rightarrow> 's option" where
  "returned_state (Called_initialize x (Inr st)) = Some st"
| "returned_state (Called_transition st ar ev ctx (Inr st')) = Some st'"
| "returned_state _ = None"

definition latest_state :: "'s option \<Rightarrow> ('i, 's, 'a, 'r) observation list \<Rightarrow> 's option" where
  "latest_state s tr =
     foldl (\<lambda>s x. case returned_state x of None \<Rightarrow> s | Some st \<Rightarrow> Some st) s tr"


text \<open>
  The history entries of the iterations that were completed: those handed to the
  \<open>iteration_complete\<close> events, in order.
\<close>

fun recorded_entry :: "('i, 's, 'a, 'r) observation \<Rightarrow> 'a iteration_history list" where
  "recorded_entry (Emitted (Ev_iteration_complete i h)) = [h]"
| "recorded_entry _ = []"

definition recorded_history :: "('i, 's, 'a, 'r) observation list \<Rightarrow> 'a iteration_history list" where
  "recorded_history tr = concat (map recorded_entry tr)"




text \<open>
  The gate of the transition, as the description states it: the transition is skipped
  when the iteration terminates or is the last one, unless alwaysRunTransition is set.
\<close>

definition transition_skipped :: "('i, 's, 'a, 'r, 'w) processor \<Rightarrow> int \<Rightarrow> bool \<Rightarrow> bool" where
  "transition_skipped p i terminating =
     ((terminating \<or> i = maxIterations (config p) - 1) \<and> \<not> alwaysRunTransition (config p))"

text \<open>Every termination decision in the trace is followed by its transition, or by none.\<close>

definition checks_ok :: "('i, 's, 'a, 'r, 'w) processor \<Rightarrow> ('i, 's, 'a, 'r) observation list \<Rightarrow> bool" where
  "checks_ok p tr =
     (\<forall>j d rsn. Termination_checked j d rsn \<in> set tr \<longrightarrow>
        length (transitions_at j tr) = (if transition_skipped p j d then 0 else 1))"


text \<open>What holds of the variables and the trace at the head of the loop, at index \<open>i\<close>.\<close>

definition slot_ok ::
  "('i, 's, 'a, 'r, 'w) processor \<Rightarrow> int \<Rightarrow> ('s, 'a) run_vars
   \<Rightarrow> ('i, 's, 'a, 'r) observation list \<Rightarrow> bool" where
  "slot_ok p i v tr =
     (0 \<le> i \<and> int (length (v_history v)) = i \<and> checks_ok p tr \<and>
      (\<forall>j. Emitted (Ev_iteration_start j) \<in> set tr \<longrightarrow> j < i) \<and>
      (\<forall>j d rsn. Termination_checked j d rsn \<in> set tr \<longrightarrow> j < i) \<and>
      (\<forall>k\<ge>i. transitions_at k tr = []))"

text \<open>\<open>e\<close> is what a call of \<^verbatim>\<open>emit\<close> or of \<^verbatim>\<open>log\<close> threw.\<close>

definition sink_failed ::
  "('i, 's, 'a, 'r, 'w) processor \<Rightarrow> ('a, 'w) environment \<Rightarrow> thrown \<Rightarrow> bool" where
  "sink_failed p env e =
     ((\<exists>ev rt. fst (emit p env ev rt) = Some e) \<or> (\<exists>l rt. fst (log p env l rt) = Some e))"

text \<open>
  The entries of the trace that come from outside the loop: the \<open>start\<close>, \<open>complete\<close>
  and \<open>error\<close> events and the calls of initialize, finalize and onError.
\<close>

fun outside_loop :: "('i, 's, 'a, 'r) observation \<Rightarrow> bool" where
  "outside_loop (Emitted (Ev_start x)) = True"
| "outside_loop (Emitted (Ev_complete res)) = True"
| "outside_loop (Emitted (Ev_error e n st)) = True"
| "outside_loop (Called_initialize x r) = True"
| "outside_loop (Called_finalize st hist r) = True"
| "outside_loop (Called_onError e st ctx r) = True"
| "outside_loop _ = False"

text \<open>
  The head of the loop at index \<open>n\<close>. \<open>loop_entry\<close> is the point of \<^verbatim>\<open>run\<close> where the
  loop is entered, with the variables and the runtime there, when \<^verbatim>\<open>run\<close> gets that
  far; \<open>loop_head\<close> follows the loop from there through \<open>n\<close> iterations that are left
  with \<^verbatim>\<open>continue\<close>; \<open>slot_start\<close> puts the two together. \<open>run_from_slot\<close> below shows
  that \<^verbatim>\<open>run\<close> is then the rest of the loop from these variables and this runtime,
  followed by the end of the \<^verbatim>\<open>try\<close> block and the \<^verbatim>\<open>catch\<close>.
\<close>

definition loop_entry ::
  "('i, 's, 'a, 'r, 'w) processor \<Rightarrow> ('a, 'w) environment \<Rightarrow> 'i \<Rightarrow> ('i, 's, 'a, 'r, 'w) runtime
   \<Rightarrow> (('s, 'a) run_vars \<times> ('i, 's, 'a, 'r, 'w) runtime) option" where
  "loop_entry p env input rt =
     attempt (emit p env (Ev_start input) (snd (now env rt))) (\<lambda>e rt1. None)
       (\<lambda>rt1. attempt (log p env (Log_starting (maxIterations (config p))) rt1) (\<lambda>e rt2. None)
          (\<lambda>rt2. case call_initialize p input rt2 of
                    (Inl e, rt3) \<Rightarrow> None
                  | (Inr st, rt3) \<Rightarrow>
                      attempt (log p env Log_initialized rt3) (\<lambda>e rt4. None)
                        (\<lambda>rt4. Some (initial_vars st, rt4))))"

fun loop_head ::
  "('i, 's, 'a, 'r, 'w) processor \<Rightarrow> ('a, 'w) environment \<Rightarrow> int
   \<Rightarrow> ('s, 'a) run_vars \<Rightarrow> ('i, 's, 'a, 'r, 'w) runtime \<Rightarrow> nat
   \<Rightarrow> (('s, 'a) run_vars \<times> ('i, 's, 'a, 'r, 'w) runtime) option" where
  "loop_head p env startTime v rt 0 = Some (v, rt)"
| "loop_head p env startTime v rt (Suc n) =
     (case loop_head p env startTime v rt n of
        None \<Rightarrow> None
      | Some (v1, rt1) \<Rightarrow>
          (if int n < maxIterations (config p)
           then (case run_iteration p env startTime (int n) v1 rt1 of
                   (Inr Continue, v2, rt2) \<Rightarrow> Some (v2, rt2)
                 | (Inr Break, v2, rt2) \<Rightarrow> None
                 | (Inl e, v2, rt2) \<Rightarrow> None)
           else None))"

definition slot_start ::
  "('i, 's, 'a, 'r, 'w) processor \<Rightarrow> ('a, 'w) environment \<Rightarrow> 'i \<Rightarrow> ('i, 's, 'a, 'r, 'w) runtime
   \<Rightarrow> nat \<Rightarrow> (('s, 'a) run_vars \<times> ('i, 's, 'a, 'r, 'w) runtime) option" where
  "slot_start p env input rt n =
     (case loop_entry p env input rt of
        None \<Rightarrow> None
      | Some (v, rt1) \<Rightarrow> loop_head p env (fst (now env rt)) v rt1 n)"



subsection \<open>Example inputs\<close>

text \<open>
  A small instance in the style of the test suite: the state and the action data are
  integers, the world is the clock in milliseconds. \<open>act\<close> returns the state plus one at
  cost 0.01, \<open>evaluate\<close> scores the data with \<open>scoreFunction\<close>, \<open>transition\<close> stores the
  data, \<open>finalize\<close> returns the state. \<open>slow\<close> is the time \<open>initialize\<close> and \<open>act\<close> take.
\<close>

definition mock_options ::
  "(int \<Rightarrow> number) \<Rightarrow> int \<Rightarrow> (int, int, int, int, int) iteration_options" where
  "mock_options scoreFunction slow =
     \<lparr>initialize = (\<lambda>input w. (Inr input, w + slow)),
      act = (\<lambda>st ctx w.
        (Inr \<lparr>data = st + 1,
              ar_metadata = Some \<lparr>sources = None, cost = Some (Fin (1 / 100)), latency = None,
                                  warnings = None\<rparr>\<rparr>, w + slow)),
      evaluate = (\<lambda>st actionResult ctx w.
        (Inr (createEvaluation (scoreFunction (data actionResult))
               \<lparr>o_shouldContinue = Some (num_lt (scoreFunction (data actionResult)) (Fin 70)),
                o_feedback = None, o_missingInfo = None, o_metadata = None\<rparr>), w)),
      transition = (\<lambda>st actionResult evaluation ctx w. (Inr (data actionResult), w)),
      finalize = (\<lambda>st hist w. (Inr st, w)),
      shouldTerminate = None,
      onError = None\<rparr>"

definition times_ten :: "int \<Rightarrow> number" where
  "times_ten v = Fin (of_int (v * 10))"

definition default_config :: "int resolved_config" where
  "default_config = \<lparr>maxIterations = 5, targetScore = Fin 70, earlyStopScore = Fin 95,
     minIterations = 1, timeout = None, verbose = False, alwaysRunTransition = False,
     skipMinIterations = False, logger = None\<rparr>"

definition mock_processor :: "(int, int, int, int, int) processor" where
  "mock_processor = \<lparr>options = mock_options times_ten 0, config = default_config,
     listeners = []\<rparr>"

definition mock_environment :: "(int, int) environment" where
  "mock_environment = \<lparr>date_now = (\<lambda>w. (w, w)), console_error = (\<lambda>msg e w. (None, w)),
     console_log = (\<lambda>line w. (None, w)), json_length = (\<lambda>d. Inr 1)\<rparr>"

definition fresh :: "(int, int, int, int, int) runtime" where
  "fresh = \<lparr>world = 0, trace = []\<rparr>"

definition first_context :: iteration_context where
  "first_context = \<lparr>ctx_iteration = 0, ctx_maxIterations = 5, elapsedTime = 0,
     previousEvaluation = None\<rparr>"





definition eager_processor :: "(int, int, int, int, int) processor" where
  "eager_processor = mock_processor\<lparr>config := default_config\<lparr>alwaysRunTransition := True\<rparr>\<rparr>"


text \<open>
  Values that occur in the runs on input 5: what evaluate returns for the data 6 and 7,
  the context of the second iteration of the batch run, the second action result.
\<close>

definition sixty :: evaluation where
  "sixty = \<lparr>score = Fin 60, shouldContinue = True, feedback = [], missingInfo = None,
     ev_metadata = None\<rparr>"

definition second_context :: iteration_context where
  "second_context = \<lparr>ctx_iteration = 1, ctx_maxIterations = 5, elapsedTime = 0,
     previousEvaluation = Some sixty\<rparr>"

definition paid_seven :: "int action_result" where
  "paid_seven = \<lparr>data = 7, ar_metadata = Some \<lparr>sources = None, cost = Some (Fin (1 / 100)),
     latency = None, warnings = None\<rparr>\<rparr>"

text \<open>
  The streaming controller over the callbacks of the example, constructed without
  options.
\<close>

definition streaming_mock :: "(int, int, int, int, int) streaming_iteratop" where
  "streaming_mock =
     \<lparr>s_config =
        \<lparr>sc_initialize = initialize (mock_options times_ten 0),
         sc_act = act (mock_options times_ten 0),
         sc_evaluate = evaluate (mock_options times_ten 0),
         sc_transition = Some (transition (mock_options times_ten 0)),
         sc_finalize = Some (finalize (mock_options times_ten 0)),
         sc_shouldTerminate = None,
         sc_onError = None\<rparr>,
      s_options = None\<rparr>"

definition seventy :: evaluation where
  "seventy = \<lparr>score = Fin 70, shouldContinue = False, feedback = [], missingInfo = None,
     ev_metadata = None\<rparr>"

text \<open>
  A custom termination check that always asks to stop.
\<close>

definition always_stop ::
  "int \<Rightarrow> evaluation \<Rightarrow> iteration_context \<Rightarrow> int \<Rightarrow> (thrown + bool) \<times> int" where
  "always_stop st ev ctx w = (Inr True, w)"










section \<open>Properties\<close>

subsection \<open>The trace and the loop\<close>

lemma steps_append [simp]: "steps (xs @ ys) = steps xs @ steps ys"
  by (simp add: steps_def)

lemma steps_Nil [simp]: "steps [] = []"
  by (simp add: steps_def)

lemma steps_Cons: "steps (x # xs) = (if is_notification x then steps xs else x # steps xs)"
  by (simp add: steps_def)

lemma trace_observe [simp]: "trace (observe x rt) = trace rt @ [x]"
  by (simp add: observe_def)

lemma world_observe [simp]: "world (observe x rt) = world rt"
  by (simp add: observe_def)

lemma trace_now [simp]: "trace (snd (now env rt)) = trace rt"
  by (simp add: now_def case_prod_beta)

lemma trace_log [simp]: "trace (snd (log p env l rt)) = trace rt"
  by (simp add: log_def case_prod_beta split: option.splits)

lemma steps_report [simp]:
  "steps (trace (snd (report_listener_error lg env e rt))) = steps (trace rt)"
  by (simp add: report_listener_error_def steps_Cons case_prod_beta split: option.splits)

lemma steps_notify [simp]: "steps (trace (snd (notify ls k lg env ev rt))) = steps (trace rt)"
proof (induction ls arbitrary: k rt)
  case Nil
  then show ?case by simp
next
  case (Cons l ls)
  let ?rt1 = "observe (Listener_invoked k (fst (l ev (world rt)))) (rt\<lparr>world := snd (l ev (world rt))\<rparr>)"
  have s1: "steps (trace ?rt1) = steps (trace rt)" by (simp add: steps_Cons)
  show ?case
  proof (cases "fst (l ev (world rt))")
    case None
    then show ?thesis using Cons.IH [of "Suc k" ?rt1] s1
      by (simp add: case_prod_beta Let_def)
  next
    case (Some e)
    let ?r = "report_listener_error lg env e ?rt1"
    have s2: "steps (trace (snd ?r)) = steps (trace rt)" using s1 by simp
    show ?thesis
    proof (cases "fst ?r")
      case None
      with Some Cons.IH [of "Suc k" "snd ?r"] s2 show ?thesis
        by (simp add: case_prod_beta Let_def)
    next
      case threw: (Some e')
      with Some s2 show ?thesis
        by (simp add: case_prod_beta Let_def)
    qed
  qed
qed

lemma steps_emit [simp]:
  "steps (trace (snd (emit p env ev rt))) = steps (trace rt) @ [Emitted ev]"
  by (simp add: emit_def steps_Cons)

lemma evaluations_at_append [simp]:
  "evaluations_at k (xs @ ys) = evaluations_at k xs @ evaluations_at k ys"
  by (simp add: evaluations_at_def)

lemma evaluations_at_Nil [simp]: "evaluations_at k [] = []"
  by (simp add: evaluations_at_def)

lemma evaluations_at_Cons [simp]:
  "evaluations_at k (x # xs) = evaluated_at k x @ evaluations_at k xs"
  by (simp add: evaluations_at_def)

lemma attempt_threw: "fst m = Some e \<Longrightarrow> attempt m h k = h e (snd m)"
  by (simp add: attempt_def)

lemma attempt_returned: "fst m = None \<Longrightarrow> attempt m h k = k (snd m)"
  by (simp add: attempt_def)

lemma run_loop_rule:
  assumes "I i v rt"
    and "\<And>i v rt. I i v rt \<Longrightarrow> i < maxIterations (config p) \<Longrightarrow>
           (case run_iteration p env startTime i v rt of
              (Inl e, v', rt') \<Rightarrow> Q (Some e) v' rt'
            | (Inr Break, v', rt') \<Rightarrow> Q None v' rt'
            | (Inr Continue, v', rt') \<Rightarrow> I (i + 1) v' rt')"
    and "\<And>i v rt. I i v rt \<Longrightarrow> \<not> i < maxIterations (config p) \<Longrightarrow> Q None v rt"
  shows "case run_loop p env startTime i v rt of (e, v', rt') \<Rightarrow> Q e v' rt'"
  using assms
proof (induction p env startTime i v rt rule: run_loop.induct)
  case (1 p env startTime i v rt)
  note inv = "1.prems"(1) and step = "1.prems"(2) and stop = "1.prems"(3)
  show ?case
  proof (cases "i < maxIterations (config p)")
    case False
    with stop [OF inv] show ?thesis by (simp add: run_loop.simps)
  next
    case True
    obtain r v' rt' where it: "run_iteration p env startTime i v rt = (r, v', rt')"
      by (cases "run_iteration p env startTime i v rt") auto
    show ?thesis
    proof (cases r)
      case (Inl e)
      with it True step [OF inv True] show ?thesis by (simp add: run_loop.simps)
    next
      case (Inr f)
      show ?thesis
      proof (cases f)
        case Continue
        with Inr it True step [OF inv True] have "I (i + 1) v' rt'" by simp
        from "1.IH" [OF True it [symmetric] Inr Continue refl this step stop] Inr Continue it True
        show ?thesis by (subst run_loop.simps) simp
      next
        case Break
        with Inr it True step [OF inv True] show ?thesis by (simp add: run_loop.simps)
      qed
    qed
  qed
qed

text \<open>The equations that evaluate a run on the example inputs.\<close>

lemmas eval_defs = run_def run_try_def run_catch_def finish_run_def run_loop.simps
  run_iteration_def record_iteration_def transition_and_terminate_def checkTermination_def
  timeout_exceeded_def shouldRunTransition_def call_initialize_def call_act_def
  call_evaluate_def call_transition_def call_finalize_def emit_def log_def now_def observe_def
  initial_vars_def initial_evaluation_def action_cost_def calculateTotalCost_def nullish_def
  createEvaluation_def math_max_def math_min_def num_ge_def num_gt_def truthy_def
  report_listener_error_def mock_processor_def mock_options_def mock_environment_def
  default_config_def fresh_def times_ten_def Let_def attempt_def leave_def reject_def
  end_try_def settle_def caught_def run_transition_def check_stop_def

subsection \<open>Numbers and the evaluation constructor\<close>

lemma math_clamp_range:
  "s \<noteq> NaN \<Longrightarrow> num_le (Fin 0) (math_max (Fin 0) (math_min (Fin 100) s)) \<and>
     num_le (math_max (Fin 0) (math_min (Fin 100) s)) (Fin 100)"
  by (cases s) (auto simp: math_max_def math_min_def)

text \<open>
  C9, as amended. For every number \<open>s\<close> other than NaN (the infinities included), the
  score of \<open>createEvaluation s\<close> lies between 0 and 100; \<open>createEvaluation (-10)\<close> has
  score 0 and \<open>createEvaluation 150\<close> has score 100.
\<close>

theorem createEvaluation_score_in_range:
  "s \<noteq> NaN \<Longrightarrow>
     num_le (Fin 0) (score (createEvaluation s opts)) \<and>
     num_le (score (createEvaluation s opts)) (Fin 100) \<and>
     score (createEvaluation (Fin (- 10)) opts) = Fin 0 \<and>
     score (createEvaluation (Fin 150) opts) = Fin 100"
  using math_clamp_range [of s]
  by (simp add: createEvaluation_def) (simp add: math_max_def math_min_def)

theorem createEvaluation_score_in_range_witness:
  "PosInf \<noteq> NaN \<and>
     num_le (Fin 0) (score (createEvaluation PosInf no_options)) \<and>
     num_le (score (createEvaluation PosInf no_options)) (Fin 100) \<and>
     score (createEvaluation (Fin (- 10)) no_options) = Fin 0 \<and>
     score (createEvaluation (Fin 150) no_options) = Fin 100"
  using createEvaluation_score_in_range [of PosInf no_options] by simp

text \<open>
  C9 as stated fails at NaN: \<^verbatim>\<open>Math.max(0, Math.min(100, NaN))\<close> is NaN, which is
  neither at least 0 nor at most 100.
\<close>

theorem createEvaluation_NaN_counterexample:
  "\<not> (num_le (Fin 0) (score (createEvaluation NaN no_options)) \<and>
      num_le (score (createEvaluation NaN no_options)) (Fin 100))"
  by (simp add: createEvaluation_def math_max_def math_min_def)

subsection \<open>The termination decision\<close>

text \<open>
  C1. The decision of \<open>checkTermination\<close> follows a fixed precedence: what the custom
  check threw, if it threw; \<open>manual_stop\<close> if it returned true; otherwise \<open>early_stop\<close> if
  the score reaches earlyStopScore (whatever the iteration index); otherwise
  \<open>converged\<close> if shouldContinue is false; otherwise \<open>converged\<close> if the score reaches
  targetScore and the index is at least minIterations - 1 or skipMinIterations is
  set; otherwise no termination.
\<close>

theorem checkTermination_precedence:
  "fst (checkTermination p st ev ctx i rt) =
     (case (case shouldTerminate (options p) of
              None \<Rightarrow> Inr False
            | Some f \<Rightarrow> fst (f st ev ctx (world rt))) of
        Inl e \<Rightarrow> Inl e
      | Inr custom \<Rightarrow>
          Inr (if custom then (True, Manual_stop)
               else if num_ge (score ev) (earlyStopScore (config p)) then (True, Early_stop)
               else if \<not> shouldContinue ev then (True, Converged)
               else if num_ge (score ev) (targetScore (config p)) \<and>
                       (i \<ge> minIterations (config p) - 1 \<or> skipMinIterations (config p))
               then (True, Converged)
               else (False, Max_iterations)))"
  by (simp add: checkTermination_def Let_def
        split: option.splits prod.splits sum.splits bool.splits)

theorem checkTermination_precedence_witness:
  "fst (checkTermination
          (mock_processor\<lparr>options := (mock_options times_ten 0)
             \<lparr>shouldTerminate := Some (\<lambda>st ev ctx w. (Inr (st = 7), w))\<rparr>\<rparr>)
          7 (createEvaluation (Fin 100) no_options) first_context 0 fresh)
     = Inr (True, Manual_stop) \<and>
   fst (checkTermination mock_processor 1 (createEvaluation (Fin 100) no_options)
          first_context 0 fresh) = Inr (True, Early_stop) \<and>
   fst (checkTermination (mock_processor\<lparr>config := default_config\<lparr>minIterations := 3\<rparr>\<rparr>) 1
          (createEvaluation (Fin 80) no_options) first_context 0 fresh)
     = Inr (True, Converged) \<and>
   fst (checkTermination (mock_processor\<lparr>config := default_config\<lparr>minIterations := 3\<rparr>\<rparr>) 1
          (createEvaluation (Fin 80) (no_options\<lparr>o_shouldContinue := Some True\<rparr>))
          first_context 0 fresh)
     = Inr (False, Max_iterations)"
  using checkTermination_precedence
          [of "mock_processor\<lparr>options := (mock_options times_ten 0)
                 \<lparr>shouldTerminate := Some (\<lambda>st ev ctx w. (Inr (st = 7), w))\<rparr>\<rparr>"
              7 "createEvaluation (Fin 100) no_options" first_context 0 fresh]
        checkTermination_precedence
          [of mock_processor 1 "createEvaluation (Fin 100) no_options" first_context 0 fresh]
        checkTermination_precedence
          [of "mock_processor\<lparr>config := default_config\<lparr>minIterations := 3\<rparr>\<rparr>" 1
              "createEvaluation (Fin 80) no_options" first_context 0 fresh]
        checkTermination_precedence
          [of "mock_processor\<lparr>config := default_config\<lparr>minIterations := 3\<rparr>\<rparr>" 1
              "createEvaluation (Fin 80) (no_options\<lparr>o_shouldContinue := Some True\<rparr>)"
              first_context 0 fresh]
  by (simp add: mock_processor_def mock_options_def default_config_def createEvaluation_def
        no_options_def fresh_def math_max_def math_min_def num_ge_def)

subsection \<open>Validation of the configuration\<close>

text \<open>
  C6. When the resolved minIterations exceeds the resolved maxIterations, the
  constructor throws the validation error; and \<open>updateConfig\<close> throws it and leaves the
  processor, hence what \<open>getConfig\<close> returns, as it was before the call.
\<close>

theorem config_validation:
  "(nullish (cfg_minIterations c) 1 > nullish (cfg_maxIterations c) 5 \<longrightarrow>
      new_IterationProcessor opts c =
        Inl (Invalid_configuration (nullish (cfg_minIterations c) 1)
              (nullish (cfg_maxIterations c) 5))) \<and>
   (nullish (cfg_minIterations c) (minIterations (config p)) >
      nullish (cfg_maxIterations c) (maxIterations (config p)) \<longrightarrow>
      fst (updateConfig p c) =
        Some (Invalid_configuration (nullish (cfg_minIterations c) (minIterations (config p)))
               (nullish (cfg_maxIterations c) (maxIterations (config p)))) \<and>
      snd (updateConfig p c) = p \<and>
      getConfig (snd (updateConfig p c)) = getConfig p)"
  by (simp add: new_IterationProcessor_def updateConfig_def Let_def)

theorem config_validation_witness:
  "new_IterationProcessor (mock_options times_ten 0)
     (empty_config\<lparr>cfg_maxIterations := Some 3, cfg_minIterations := Some 5\<rparr>)
     = Inl (Invalid_configuration 5 3) \<and>
   fst (updateConfig (mock_processor\<lparr>config := default_config\<lparr>minIterations := 2\<rparr>\<rparr>)
          (empty_config\<lparr>cfg_maxIterations := Some 1\<rparr>)) = Some (Invalid_configuration 2 1) \<and>
   getConfig (snd (updateConfig (mock_processor\<lparr>config := default_config\<lparr>minIterations := 2\<rparr>\<rparr>)
          (empty_config\<lparr>cfg_maxIterations := Some 1\<rparr>)))
     = getConfig (mock_processor\<lparr>config := default_config\<lparr>minIterations := 2\<rparr>\<rparr>)"
  using config_validation
          [of "empty_config\<lparr>cfg_maxIterations := Some 3, cfg_minIterations := Some 5\<rparr>"
              "mock_options times_ten 0"
              "mock_processor\<lparr>config := default_config\<lparr>minIterations := 2\<rparr>\<rparr>"]
        config_validation
          [of "empty_config\<lparr>cfg_maxIterations := Some 1\<rparr>"
              "mock_options times_ten 0"
              "mock_processor\<lparr>config := default_config\<lparr>minIterations := 2\<rparr>\<rparr>"]
  by (simp add: empty_config_def nullish_def default_config_def mock_processor_def)

subsection \<open>The streaming controller\<close>

lemma check_convergence_rule:
  "check_convergence (nullish (stream_option c cfg_skipMinIterations) False)
     (nullish (stream_option c cfg_targetScore) (Fin 70))
     (nullish (stream_option c cfg_minIterations) 1) n ev False
   = converges_by_rule c n ev"
  by (auto simp: check_convergence_def converges_by_rule_def)

lemma act_iterations_append [simp]:
  "act_iterations (xs @ ys) = act_iterations xs @ act_iterations ys"
  by (simp add: act_iterations_def)

lemma act_iterations_Nil [simp]: "act_iterations [] = []"
  by (simp add: act_iterations_def)

lemma act_iterations_Cons [simp]: "act_iterations (x # xs) = acted_at x @ act_iterations xs"
  by (simp add: act_iterations_def)

lemma transitions_at_append [simp]:
  "transitions_at k (xs @ ys) = transitions_at k xs @ transitions_at k ys"
  by (simp add: transitions_at_def)

lemma transitions_at_Nil [simp]: "transitions_at k [] = []"
  by (simp add: transitions_at_def)

lemma transitions_at_Cons [simp]:
  "transitions_at k (x # xs) = (if transitioned_at k x then x # transitions_at k xs
                                else transitions_at k xs)"
  by (simp add: transitions_at_def)

lemma stream_loop_rule:
  assumes "I it v rt"
    and "\<And>it v rt. I it v rt
           \<Longrightarrow> it < nullish (stream_option (s_options sp) cfg_maxIterations) 5
           \<Longrightarrow> \<not> sv_converged v \<Longrightarrow>
           (case stream_iteration sp env startTime it v rt of
              (Inl e, v', rt') \<Rightarrow> Q (Some e) v' rt'
            | (Inr Break, v', rt') \<Rightarrow> Q None v' rt'
            | (Inr Continue, v', rt') \<Rightarrow> I (it + 1) v' rt')"
    and "\<And>it v rt. I it v rt \<Longrightarrow> Q None v rt"
  shows "case stream_loop sp env startTime it v rt of (e, v', rt') \<Rightarrow> Q e v' rt'"
  using assms
proof (induction sp env startTime it v rt rule: stream_loop.induct)
  case (1 sp env startTime it v rt)
  note inv = "1.prems"(1) and step = "1.prems"(2) and stop = "1.prems"(3)
  let ?go = "it < nullish (stream_option (s_options sp) cfg_maxIterations) 5 \<and> \<not> sv_converged v"
  show ?case
  proof (cases ?go)
    case False
    with stop [OF inv] show ?thesis by (auto simp: stream_loop.simps)
  next
    case True
    then have lt: "it < nullish (stream_option (s_options sp) cfg_maxIterations) 5"
      and nc: "\<not> sv_converged v" by simp_all
    obtain r v' rt' where it: "stream_iteration sp env startTime it v rt = (r, v', rt')"
      by (cases "stream_iteration sp env startTime it v rt") auto
    show ?thesis
    proof (cases r)
      case (Inl e)
      with it True step [OF inv lt nc] show ?thesis by (simp add: stream_loop.simps)
    next
      case (Inr f)
      show ?thesis
      proof (cases f)
        case Continue
        with Inr it True step [OF inv lt nc] have "I (it + 1) v' rt'" by simp
        from "1.IH" [OF True it [symmetric] Inr Continue refl this step stop] Inr Continue it True
        show ?thesis by (subst stream_loop.simps) simp
      next
        case Break
        with Inr it True step [OF inv lt nc] show ?thesis by (simp add: stream_loop.simps)
      qed
    qed
  qed
qed

lemma stream_step_cases
  [consumes 3, case_names act_failed evaluate_failed converged transition_failed transitioned]:
  fixes sp :: "('i, 's, 'a, 'r, 'w) streaming_iteratop"
  assumes run: "stream_step sp env startTime t0 it v rt = (r, v', rt')"
    and tr: "sc_transition (s_config sp) = Some f"
    and nc: "\<not> sv_converged v"
  obtains
    (act_failed) e ctx where
      "r = Inl e" "ctx_iteration ctx = it + 1"
      "trace rt' = trace rt @ [Called_act (sv_currentState v) ctx (Inl e)]"
      "sv_states v' = sv_states v"
  | (evaluate_failed) e ctx ar where
      "r = Inl e" "ctx_iteration ctx = it + 1"
      "trace rt' = trace rt @ [Called_act (sv_currentState v) ctx (Inr ar),
                               Called_evaluate (sv_currentState v) ar ctx (Inl e)]"
      "sv_states v' = sv_states v"
  | (converged) ctx ar ev s where
      "r = Inr Break" "ctx_iteration ctx = it + 1"
      "converges_by_rule (s_options sp) (it + 1) ev"
      "trace rt' = trace rt @ [Called_act (sv_currentState v) ctx (Inr ar),
                               Called_evaluate (sv_currentState v) ar ctx (Inr ev)]"
      "sv_states v' = sv_states v @ [s]"
      "ss_iteration s = it + 1" "ss_evaluation s = Some ev" "ss_converged s"
  | (transition_failed) e ctx ar ev where
      "r = Inl e" "ctx_iteration ctx = it + 1"
      "\<not> converges_by_rule (s_options sp) (it + 1) ev"
      "trace rt' = trace rt @ [Called_act (sv_currentState v) ctx (Inr ar),
                               Called_evaluate (sv_currentState v) ar ctx (Inr ev),
                               Called_transition (sv_currentState v) ar ev ctx (Inl e)]"
      "sv_states v' = sv_states v"
  | (transitioned) ctx ar ev st' s where
      "r = Inr Continue" "ctx_iteration ctx = it + 1"
      "\<not> converges_by_rule (s_options sp) (it + 1) ev"
      "trace rt' = trace rt @ [Called_act (sv_currentState v) ctx (Inr ar),
                               Called_evaluate (sv_currentState v) ar ctx (Inr ev),
                               Called_transition (sv_currentState v) ar ev ctx (Inr st')]"
      "sv_states v' = sv_states v @ [s]"
      "ss_iteration s = it + 1" "ss_evaluation s = Some ev" "\<not> ss_converged s"
      "\<not> sv_converged v'"
proof -
  let ?S = "stream_step sp env startTime t0 it v rt"
  have r: "r = fst ?S" and v': "v' = fst (snd ?S)" and rt': "rt' = snd (snd ?S)"
    by (simp_all add: run)
  let ?rt1 = "snd (now env rt)"
  let ?ctx = "\<lparr>ctx_iteration = it + 1,
     ctx_maxIterations = nullish (stream_option (s_options sp) cfg_maxIterations) 5,
     elapsedTime = fst (now env rt) - startTime,
     previousEvaluation = last_evaluation (sv_history v)\<rparr>"
  let ?a = "sc_act (s_config sp) (sv_currentState v) ?ctx (world ?rt1)"
  show thesis
  proof (cases "fst ?a")
    case (Inl e)
    show thesis
      by (rule act_failed [of e ?ctx])
         (simp_all add: r v' rt' stream_step_def Let_def case_prod_beta Inl)
  next
    case (Inr ar)
    let ?rt2 = "observe (Called_act (sv_currentState v) ?ctx (Inr ar)) (?rt1\<lparr>world := snd ?a\<rparr>)"
    let ?e = "sc_evaluate (s_config sp) (sv_currentState v) ar ?ctx (snd ?a)"
    show thesis
    proof (cases "fst ?e")
      case (Inl e)
      show thesis
        by (rule evaluate_failed [of e ?ctx ar])
           (simp_all add: r v' rt' stream_step_def Let_def case_prod_beta Inr Inl)
    next
      case ev: (Inr ev)
      let ?rt3 = "observe (Called_evaluate (sv_currentState v) ar ?ctx (Inr ev))
                    (?rt2\<lparr>world := snd ?e\<rparr>)"
      let ?rt5 = "snd (now env (snd (now env ?rt3)))"
      show thesis
      proof (cases "converges_by_rule (s_options sp) (it + 1) ev")
        case True
        let ?s = "\<lparr>ss_iteration = it + 1, ss_state = sv_currentState v,
           ss_evaluation = Some ev, ss_actionResult = Some ar, ss_converged = True,
           timedOut = None, ss_context = ?ctx\<rparr>"
        show thesis
          by (rule converged [of ?ctx ev ar ?s])
             (simp_all add: r v' rt' stream_step_def Let_def case_prod_beta Inr ev nc
                check_convergence_rule True)
      next
        case False
        let ?t = "f (sv_currentState v) ar ev ?ctx (world ?rt5)"
        show thesis
        proof (cases "fst ?t")
          case (Inl e)
          show thesis
            by (rule transition_failed [of e ?ctx ev ar])
               (simp_all add: r v' rt' stream_step_def Let_def case_prod_beta Inr ev nc
                  check_convergence_rule False tr Inl)
        next
          case st: (Inr st')
          let ?s = "\<lparr>ss_iteration = it + 1, ss_state = st',
             ss_evaluation = Some ev, ss_actionResult = Some ar, ss_converged = False,
             timedOut = None, ss_context = ?ctx\<rparr>"
          show thesis
            by (rule transitioned [of ?ctx ev ar st' ?s])
               (simp_all add: r v' rt' stream_step_def Let_def case_prod_beta Inr ev nc
                  check_convergence_rule False tr st)
        qed
      qed
    qed
  qed
qed

lemma stream_iteration_cases [consumes 1, case_names timed_out stepped]:
  fixes sp :: "('i, 's, 'a, 'r, 'w) streaming_iteratop"
  assumes run: "stream_iteration sp env startTime it v rt = (r, v', rt')"
  obtains
    (timed_out) s where
      "r = Inr Break" "trace rt' = trace rt" "sv_states v' = sv_states v @ [s]"
      "ss_iteration s = it + 1" "ss_evaluation s = None" "\<not> ss_converged s"
  | (stepped) t0 rt2 where
      "stream_step sp env startTime t0 it v rt2 = (r, v', rt')" "trace rt2 = trace rt"
proof -
  let ?S = "stream_iteration sp env startTime it v rt"
  have r: "r = fst ?S" and v': "v' = fst (snd ?S)" and rt': "rt' = snd (snd ?S)"
    by (simp_all add: run)
  let ?rt1 = "snd (now env rt)"
  let ?to = "case stream_option (s_options sp) cfg_timeout of
               None \<Rightarrow> (False, ?rt1)
             | Some t \<Rightarrow>
                 (if truthy t
                  then (let (n, rt') = now env ?rt1
                        in (num_gt (Fin (of_int (n - startTime))) t, rt'))
                  else (False, ?rt1))"
  have to: "trace (snd ?to) = trace rt"
    by (simp add: case_prod_beta split: option.splits)
  show thesis
  proof (cases "fst ?to")
    case True
    let ?s = "\<lparr>ss_iteration = it + 1, ss_state = sv_currentState v,
       ss_evaluation = None, ss_actionResult = None, ss_converged = False,
       timedOut = Some True,
       ss_context = \<lparr>ctx_iteration = it + 1,
          ctx_maxIterations = nullish (stream_option (s_options sp) cfg_maxIterations) 5,
          elapsedTime = fst (now env (snd ?to)) - startTime,
          previousEvaluation = last_evaluation (sv_history v)\<rparr>\<rparr>"
    show thesis
      using True to
      by (intro timed_out [of ?s])
         (simp_all add: r v' rt' stream_iteration_def Let_def case_prod_beta)
  next
    case False
    then have "stream_step sp env startTime (fst (now env rt)) it v (snd ?to) = ?S"
      by (simp add: stream_iteration_def Let_def case_prod_beta)
    with run have "stream_step sp env startTime (fst (now env rt)) it v (snd ?to) = (r, v', rt')"
      by simp
    then show thesis using to by (rule stepped)
  qed
qed

lemma stream_trace_ok_step:
  assumes ok: "stream_trace_ok c k tr"
    and a: "act_iterations xs = [k + 1]"
    and other: "\<And>n. n \<noteq> k + 1 \<Longrightarrow> evaluations_at n xs = [] \<and> transitions_at n xs = []"
    and here: "\<And>ev. ev \<in> set (evaluations_at (k + 1) xs) \<Longrightarrow>
        length (transitions_at (k + 1) xs) = (if converges_by_rule c (k + 1) ev then 0 else 1)"
  shows "stream_trace_ok c (k + 1) (tr @ xs)"
proof -
  from ok have k: "0 \<le> k" and acts: "act_iterations tr = [1..k]"
    and above: "\<And>n. k < n \<Longrightarrow> evaluations_at n tr = [] \<and> transitions_at n tr = []"
    and below: "\<And>n ev. ev \<in> set (evaluations_at n tr) \<Longrightarrow>
        length (transitions_at n tr) = (if converges_by_rule c n ev then 0 else 1)"
    by (simp_all add: stream_trace_ok_def)
  from k have up: "[1..k + 1] = [1..k] @ [k + 1]"
    using upto_rec2 [of 1 "k + 1"] by simp
  have "length (transitions_at n (tr @ xs)) = (if converges_by_rule c n ev then 0 else 1)"
    if "ev \<in> set (evaluations_at n (tr @ xs))" for n ev
  proof (cases "n = k + 1")
    case True
    with above [of n] that here [of ev] show ?thesis by simp
  next
    case False
    with other [of n] that below [of ev n] show ?thesis by simp
  qed
  moreover have "evaluations_at n (tr @ xs) = [] \<and> transitions_at n (tr @ xs) = []"
    if "k + 1 < n" for n
    using that above [of n] other [of n] by simp
  ultimately show ?thesis
    using k acts a up unfolding stream_trace_ok_def by simp
qed

lemma stream_trace_ok_neutral:
  assumes "stream_trace_ok c k tr"
    and "acted_at x = []" and "\<And>n. evaluated_at n x = []" and "\<And>n. \<not> transitioned_at n x"
  shows "stream_trace_ok c k (tr @ [x])"
  using assms by (simp add: stream_trace_ok_def)

lemma stream_states_ok_step:
  assumes "stream_states_ok c k states" and "ss_iteration s = k + 1" and "state_ok c s"
  shows "stream_states_ok c (k + 1) (states @ [s])"
proof -
  from assms(1) have k: "0 \<le> k" by (simp add: stream_states_ok_def)
  then have "[0..k + 1] = [0..k] @ [k + 1]"
    using upto_rec2 [of 0 "k + 1"] by simp
  with assms show ?thesis by (simp add: stream_states_ok_def)
qed

lemma stream_iteration_ok:
  fixes sp :: "('i, 's, 'a, 'r, 'w) streaming_iteratop"
  assumes run: "stream_iteration sp env startTime it v rt = (r, v', rt')"
    and tr: "sc_transition (s_config sp) = Some f"
    and nc: "\<not> sv_converged v"
    and T: "stream_trace_ok (s_options sp) it (trace rt)"
    and S: "stream_states_ok (s_options sp) it (sv_states v)"
  shows "(\<exists>k. stream_trace_ok (s_options sp) k (trace rt')) \<and>
         (\<exists>k. stream_states_ok (s_options sp) k (sv_states v')) \<and>
         (r = Inr Continue \<longrightarrow>
            stream_trace_ok (s_options sp) (it + 1) (trace rt') \<and>
            stream_states_ok (s_options sp) (it + 1) (sv_states v') \<and> \<not> sv_converged v')"
  using run
proof (cases rule: stream_iteration_cases)
  case (timed_out s)
  from timed_out(5,6) have "state_ok (s_options sp) s" by (simp add: state_ok_def)
  from stream_states_ok_step [OF S timed_out(4) this] T timed_out show ?thesis by auto
next
  case (stepped t0 rt2)
  from stepped(1) tr nc show ?thesis
  proof (cases rule: stream_step_cases)
    case (act_failed e ctx)
    have "stream_trace_ok (s_options sp) (it + 1)
            (trace rt @ [Called_act (sv_currentState v) ctx (Inl e)])"
      by (rule stream_trace_ok_step [OF T]) (simp_all add: act_failed)
    with act_failed S stepped(2) show ?thesis by auto
  next
    case (evaluate_failed e ctx ar)
    have "stream_trace_ok (s_options sp) (it + 1)
            (trace rt @ [Called_act (sv_currentState v) ctx (Inr ar),
                         Called_evaluate (sv_currentState v) ar ctx (Inl e)])"
      by (rule stream_trace_ok_step [OF T]) (simp_all add: evaluate_failed)
    with evaluate_failed S stepped(2) show ?thesis by auto
  next
    case (converged ctx ar ev s)
    have "stream_trace_ok (s_options sp) (it + 1)
            (trace rt @ [Called_act (sv_currentState v) ctx (Inr ar),
                         Called_evaluate (sv_currentState v) ar ctx (Inr ev)])"
      by (rule stream_trace_ok_step [OF T]) (simp_all add: converged)
    moreover from converged have "state_ok (s_options sp) s" by (simp add: state_ok_def)
    note stream_states_ok_step [OF S converged(6) this]
    ultimately show ?thesis using converged stepped(2) by auto
  next
    case (transition_failed e ctx ar ev)
    have "stream_trace_ok (s_options sp) (it + 1)
            (trace rt @ [Called_act (sv_currentState v) ctx (Inr ar),
                         Called_evaluate (sv_currentState v) ar ctx (Inr ev),
                         Called_transition (sv_currentState v) ar ev ctx (Inl e)])"
      by (rule stream_trace_ok_step [OF T]) (simp_all add: transition_failed)
    with transition_failed S stepped(2) show ?thesis by auto
  next
    case (transitioned ctx ar ev st' s)
    have "stream_trace_ok (s_options sp) (it + 1)
            (trace rt @ [Called_act (sv_currentState v) ctx (Inr ar),
                         Called_evaluate (sv_currentState v) ar ctx (Inr ev),
                         Called_transition (sv_currentState v) ar ev ctx (Inr st')])"
      by (rule stream_trace_ok_step [OF T]) (simp_all add: transitioned)
    moreover from transitioned have "state_ok (s_options sp) s" by (simp add: state_ok_def)
    note stream_states_ok_step [OF S transitioned(6) this]
    ultimately show ?thesis using transitioned stepped(2) by auto
  qed
qed

lemma stream_loop_ok:
  fixes sp :: "('i, 's, 'a, 'r, 'w) streaming_iteratop"
  assumes tr: "sc_transition (s_config sp) = Some f"
    and T: "stream_trace_ok (s_options sp) it (trace rt)"
    and S: "stream_states_ok (s_options sp) it (sv_states v)"
  shows "(\<exists>k. stream_trace_ok (s_options sp) k
                (trace (snd (snd (stream_loop sp env startTime it v rt))))) \<and>
         (\<exists>k. stream_states_ok (s_options sp) k
                (sv_states (fst (snd (stream_loop sp env startTime it v rt)))))"
proof -
  let ?I = "\<lambda>(i :: int) (w :: ('s, 'a) stream_vars) (rt' :: ('i, 's, 'a, 'r, 'w) runtime).
       stream_trace_ok (s_options sp) i (trace rt') \<and>
       stream_states_ok (s_options sp) i (sv_states w)"
  let ?Q = "\<lambda>(e :: thrown option) (w :: ('s, 'a) stream_vars)
              (rt' :: ('i, 's, 'a, 'r, 'w) runtime).
       (\<exists>k. stream_trace_ok (s_options sp) k (trace rt')) \<and>
       (\<exists>k. stream_states_ok (s_options sp) k (sv_states w))"
  have "case stream_loop sp env startTime it v rt of (e, v', rt') \<Rightarrow> ?Q e v' rt'"
  proof (rule stream_loop_rule [where I = ?I and Q = ?Q])
    show "?I it v rt" using T S by simp
  next
    fix j w rt1
    assume inv: "?I j w rt1" and nc: "\<not> sv_converged w"
    obtain r v' rt' where run: "stream_iteration sp env startTime j w rt1 = (r, v', rt')"
      by (cases "stream_iteration sp env startTime j w rt1") auto
    from inv have T1: "stream_trace_ok (s_options sp) j (trace rt1)"
      and S1: "stream_states_ok (s_options sp) j (sv_states w)" by simp_all
    from stream_iteration_ok [OF run tr nc T1 S1]
    show "case stream_iteration sp env startTime j w rt1 of
            (Inl e, v', rt') \<Rightarrow> ?Q (Some e) v' rt'
          | (Inr Break, v', rt') \<Rightarrow> ?Q None v' rt'
          | (Inr Continue, v', rt') \<Rightarrow> ?I (j + 1) v' rt'"
      unfolding run by (simp split: sum.splits flow.splits)
  next
    fix j w rt1
    assume "?I j w rt1"
    then show "?Q None w rt1" by blast
  qed
  then show ?thesis by (simp add: case_prod_beta)
qed

lemma executeStream_ok:
  fixes sp :: "('i, 's, 'a, 'r, 'w) streaming_iteratop"
  assumes e: "trace rt = []" and tr: "sc_transition (s_config sp) = Some f"
  shows "(\<exists>k. stream_trace_ok (s_options sp) k (trace (snd (executeStream sp env input rt)))) \<and>
         (\<forall>states. fst (executeStream sp env input rt) = Inr states \<longrightarrow>
            (\<exists>k. stream_states_ok (s_options sp) k states))"
proof -
  let ?i = "sc_initialize (s_config sp) input (world rt)"
  let ?rt1 = "observe (Called_initialize input (fst ?i)) (rt\<lparr>world := snd ?i\<rparr>)"
  have T0: "stream_trace_ok (s_options sp) 0 (trace ?rt1)"
    by (simp add: e stream_trace_ok_def)
  show ?thesis
  proof (cases "fst ?i")
    case (Inl err)
    then have "executeStream sp env input rt = (Inl err, ?rt1)"
      by (simp add: executeStream_def Let_def case_prod_beta)
    with T0 show ?thesis by auto
  next
    case (Inr st)
    let ?v0 = "\<lparr>sv_currentState = st, sv_converged = False,
       sv_history = ([] :: 'a iteration_history list),
       sv_states = [\<lparr>ss_iteration = 0, ss_state = st,
          ss_evaluation = None, ss_actionResult = None, ss_converged = False,
          timedOut = None,
          ss_context = \<lparr>ctx_iteration = 0,
             ctx_maxIterations = nullish (stream_option (s_options sp) cfg_maxIterations) 5,
             elapsedTime = 0, previousEvaluation = None\<rparr>\<rparr>]\<rparr>"
    let ?L = "stream_loop sp env (fst (now env ?rt1)) 0 ?v0 (snd (now env ?rt1))"
    have S0: "stream_states_ok (s_options sp) 0 (sv_states ?v0)"
      by (simp add: stream_states_ok_def state_ok_def)
    from T0 have "stream_trace_ok (s_options sp) 0 (trace (snd (now env ?rt1)))" by simp
    from stream_loop_ok [OF tr this S0, of env "fst (now env ?rt1)"]
    obtain k k' where L: "stream_trace_ok (s_options sp) k (trace (snd (snd ?L)))"
      "stream_states_ok (s_options sp) k' (sv_states (fst (snd ?L)))"
      by blast
    have X: "executeStream sp env input rt =
       (case fst ?L of
          Some err \<Rightarrow> (Inl err, snd (snd ?L))
        | None \<Rightarrow>
            (case sc_finalize (s_config sp) of
               None \<Rightarrow> (Inr (sv_states (fst (snd ?L))), snd (snd ?L))
             | Some g \<Rightarrow>
                 (case fst (g (sv_currentState (fst (snd ?L))) (sv_history (fst (snd ?L)))
                             (world (snd (snd ?L)))) of
                    Inl err \<Rightarrow>
                      (Inl err,
                       observe (Called_finalize (sv_currentState (fst (snd ?L)))
                          (sv_history (fst (snd ?L)))
                          (fst (g (sv_currentState (fst (snd ?L))) (sv_history (fst (snd ?L)))
                             (world (snd (snd ?L))))))
                         (snd (snd ?L)\<lparr>world := snd (g (sv_currentState (fst (snd ?L)))
                             (sv_history (fst (snd ?L))) (world (snd (snd ?L))))\<rparr>))
                  | Inr x \<Rightarrow>
                      (Inr (sv_states (fst (snd ?L))),
                       observe (Called_finalize (sv_currentState (fst (snd ?L)))
                          (sv_history (fst (snd ?L)))
                          (fst (g (sv_currentState (fst (snd ?L))) (sv_history (fst (snd ?L)))
                             (world (snd (snd ?L))))))
                         (snd (snd ?L)\<lparr>world := snd (g (sv_currentState (fst (snd ?L)))
                             (sv_history (fst (snd ?L))) (world (snd (snd ?L))))\<rparr>)))))"
      using Inr
      by (simp add: executeStream_def Let_def case_prod_beta
            split: option.splits sum.splits)
    have N: "stream_trace_ok (s_options sp) k (trace (snd (snd ?L)) @ [Called_finalize a b c])"
      for a b c
      by (rule stream_trace_ok_neutral [OF L(1)]) simp_all
    show ?thesis
      unfolding X using L N
      by (auto split: option.splits sum.splits)
  qed
qed

lemma with_batch_rules_simps:
  "sc_initialize (s_config (with_batch_rules a b t sp)) = sc_initialize (s_config sp)"
  "sc_act (s_config (with_batch_rules a b t sp)) = sc_act (s_config sp)"
  "sc_evaluate (s_config (with_batch_rules a b t sp)) = sc_evaluate (s_config sp)"
  "sc_transition (s_config (with_batch_rules a b t sp)) = sc_transition (s_config sp)"
  "sc_finalize (s_config (with_batch_rules a b t sp)) = sc_finalize (s_config sp)"
  "stream_option (s_options (with_batch_rules a b t sp)) cfg_maxIterations =
   stream_option (s_options sp) cfg_maxIterations"
  "stream_option (s_options (with_batch_rules a b t sp)) cfg_minIterations =
   stream_option (s_options sp) cfg_minIterations"
  "stream_option (s_options (with_batch_rules a b t sp)) cfg_targetScore =
   stream_option (s_options sp) cfg_targetScore"
  "stream_option (s_options (with_batch_rules a b t sp)) cfg_skipMinIterations =
   stream_option (s_options sp) cfg_skipMinIterations"
  "stream_option (s_options (with_batch_rules a b t sp)) cfg_timeout =
   stream_option (s_options sp) cfg_timeout"
  by (simp_all add: with_batch_rules_def stream_option_def empty_config_def
        split: option.splits)

lemma stream_step_with_batch_rules:
  "stream_step (with_batch_rules a b t sp) env startTime t0 it v rt =
   stream_step sp env startTime t0 it v rt"
  unfolding stream_step_def with_batch_rules_simps by (rule refl)

lemma stream_iteration_with_batch_rules:
  "stream_iteration (with_batch_rules a b t sp) env startTime it v rt =
   stream_iteration sp env startTime it v rt"
  unfolding stream_iteration_def stream_step_with_batch_rules with_batch_rules_simps
  by (rule refl)

lemma stream_loop_with_batch_rules:
  "stream_loop (with_batch_rules a b t sp) env startTime it v rt =
   stream_loop sp env startTime it v rt"
proof (induction sp env startTime it v rt rule: stream_loop.induct)
  case (1 sp env startTime it v rt)
  note unfold = stream_loop.simps [of _ env startTime it v rt] with_batch_rules_simps
    stream_iteration_with_batch_rules
  show ?case
  proof (cases "it < nullish (stream_option (s_options sp) cfg_maxIterations) 5
                  \<and> \<not> sv_converged v")
    case False
    then show ?thesis by (auto simp: unfold)
  next
    case True
    obtain r v' rt' where run: "stream_iteration sp env startTime it v rt = (r, v', rt')"
      by (cases "stream_iteration sp env startTime it v rt") auto
    show ?thesis
    proof (cases r)
      case (Inl e)
      with run True show ?thesis by (simp add: unfold)
    next
      case (Inr fl)
      show ?thesis
      proof (cases fl)
        case Continue
        from "1.IH" [OF True run [symmetric] Inr Continue refl] Inr Continue run True
        show ?thesis by (simp add: unfold)
      next
        case Break
        with Inr run True show ?thesis by (simp add: unfold)
      qed
    qed
  qed
qed

lemma executeStream_with_batch_rules:
  "executeStream (with_batch_rules a b t sp) env input rt = executeStream sp env input rt"
  unfolding executeStream_def stream_loop_with_batch_rules with_batch_rules_simps
  by (rule refl)

text \<open>
  C3. In a run of the streaming controller (constructed with a transition, as its type
  requires) that starts with an empty trace: the contexts passed to act are numbered 1,
  2, ... in order; after every evaluation returned in the iteration counted \<open>n\<close> transition
  is called exactly once with that number if the rule (\<open>skipMinIterations\<close> and
  \<open>score \<ge> targetScore\<close>, or \<open>score \<ge> targetScore\<close> and \<open>n \<ge> minIterations\<close>, or not
  \<open>shouldContinue\<close> and \<open>n \<ge> minIterations\<close>) does not hold of it, and not at all if it
  holds; when the run resolves, its states are numbered from 0 and each carries as
  \<open>converged\<close> what the rule gives for its evaluation; and the run is the same whatever
  \<open>alwaysRunTransition\<close>, \<open>earlyStopScore\<close> and \<open>shouldTerminate\<close> are set to.
\<close>

theorem streaming_convergence:
  fixes sp :: "('i, 's, 'a, 'r, 'w) streaming_iteratop"
  assumes "trace rt = []" and "sc_transition (s_config sp) = Some f"
  shows "act_iterations (trace (snd (executeStream sp env input rt)))
           = [1..int (length (act_iterations (trace (snd (executeStream sp env input rt)))))] \<and>
         (\<forall>n ev. ev \<in> set (evaluations_at n (trace (snd (executeStream sp env input rt)))) \<longrightarrow>
            length (transitions_at n (trace (snd (executeStream sp env input rt))))
              = (if converges_by_rule (s_options sp) n ev then 0 else 1)) \<and>
         (\<forall>states. fst (executeStream sp env input rt) = Inr states \<longrightarrow>
            map ss_iteration states = [0..int (length states) - 1] \<and>
            (\<forall>s\<in>set states.
               ss_converged s =
                 (case ss_evaluation s of
                    None \<Rightarrow> False
                  | Some ev \<Rightarrow> converges_by_rule (s_options sp) (ss_iteration s) ev))) \<and>
         executeStream (with_batch_rules a b t sp) env input rt = executeStream sp env input rt"
proof -
  let ?T = "trace (snd (executeStream sp env input rt))"
  from executeStream_ok [OF assms, of env input]
  obtain k where T: "stream_trace_ok (s_options sp) k ?T"
    and S: "\<And>states. fst (executeStream sp env input rt) = Inr states \<Longrightarrow>
              \<exists>k. stream_states_ok (s_options sp) k states"
    by blast
  from T have "0 \<le> k" "act_iterations ?T = [1..k]" by (simp_all add: stream_trace_ok_def)
  then have one: "act_iterations ?T = [1..int (length (act_iterations ?T))]" by simp
  from T have two: "\<forall>n ev. ev \<in> set (evaluations_at n ?T) \<longrightarrow>
      length (transitions_at n ?T) = (if converges_by_rule (s_options sp) n ev then 0 else 1)"
    by (simp add: stream_trace_ok_def)
  have three: "map ss_iteration states = [0..int (length states) - 1] \<and>
            (\<forall>s\<in>set states.
               ss_converged s =
                 (case ss_evaluation s of
                    None \<Rightarrow> False
                  | Some ev \<Rightarrow> converges_by_rule (s_options sp) (ss_iteration s) ev))"
    if "fst (executeStream sp env input rt) = Inr states" for states
  proof -
    from S [OF that] obtain j where j: "stream_states_ok (s_options sp) j states" ..
    then have "0 \<le> j" and m: "map ss_iteration states = [0..j]"
      and a: "list_all (state_ok (s_options sp)) states"
      by (simp_all add: stream_states_ok_def)
    from m have "length states = length [0..j]" by (metis length_map)
    with \<open>0 \<le> j\<close> have "int (length states) - 1 = j" by simp
    with m a show ?thesis by (simp add: list_all_iff state_ok_def)
  qed
  from one two three executeStream_with_batch_rules [of a b t sp env input rt]
  show ?thesis by blast
qed

lemmas stream_eval_defs = executeStream_def stream_loop.simps stream_iteration_def
  stream_step_def check_convergence_def stream_option_def last_evaluation_def
  streaming_mock_def mock_options_def times_ten_def mock_environment_def fresh_def
  now_def observe_def nullish_def createEvaluation_def math_max_def math_min_def
  num_ge_def num_gt_def truthy_def Let_def

theorem streaming_convergence_witness:
  "trace fresh = [] \<and>
   sc_transition (s_config streaming_mock) = Some (transition (mock_options times_ten 0)) \<and>
   act_iterations (trace (snd (executeStream streaming_mock mock_environment 5 fresh))) = [1, 2] \<and>
   evaluations_at 1 (trace (snd (executeStream streaming_mock mock_environment 5 fresh)))
     = [sixty] \<and>
   \<not> converges_by_rule (s_options streaming_mock) 1 sixty \<and>
   length (transitions_at 1 (trace (snd (executeStream streaming_mock mock_environment 5 fresh))))
     = 1 \<and>
   evaluations_at 2 (trace (snd (executeStream streaming_mock mock_environment 5 fresh)))
     = [seventy] \<and>
   converges_by_rule (s_options streaming_mock) 2 seventy \<and>
   length (transitions_at 2 (trace (snd (executeStream streaming_mock mock_environment 5 fresh))))
     = 0 \<and>
   map ss_iteration (projr (fst (executeStream streaming_mock mock_environment 5 fresh)))
     = [0, 1, 2] \<and>
   map ss_converged (projr (fst (executeStream streaming_mock mock_environment 5 fresh)))
     = [False, False, True] \<and>
   executeStream (with_batch_rules (Some True) (Some (Fin 50)) (Some always_stop) streaming_mock)
     mock_environment 5 fresh
     = executeStream streaming_mock mock_environment 5 fresh"
proof -
  let ?X = "executeStream streaming_mock mock_environment 5 fresh"
  have h1: "trace fresh = []" by (simp add: fresh_def)
  have h2: "sc_transition (s_config streaming_mock)
              = Some (transition (mock_options times_ten 0))"
    by (simp add: streaming_mock_def)
  have e1: "evaluations_at 1 (trace (snd ?X)) = [sixty]"
    by (simp add: stream_eval_defs sixty_def)
  have e2: "evaluations_at 2 (trace (snd ?X)) = [seventy]"
    by (simp add: stream_eval_defs seventy_def)
  have a: "length (act_iterations (trace (snd ?X))) = 2"
    by (simp add: stream_eval_defs)
  have c1: "\<not> converges_by_rule (s_options streaming_mock) 1 sixty"
    by (simp add: converges_by_rule_def streaming_mock_def stream_option_def nullish_def
          sixty_def num_ge_def)
  have c2: "converges_by_rule (s_options streaming_mock) 2 seventy"
    by (simp add: converges_by_rule_def streaming_mock_def stream_option_def nullish_def
          seventy_def num_ge_def)
  have s: "fst ?X = Inr (projr (fst ?X))" "length (projr (fst ?X)) = 3"
    "map ss_evaluation (projr (fst ?X)) = [None, Some sixty, Some seventy]"
    by (simp_all add: stream_eval_defs sixty_def seventy_def)
  note main = streaming_convergence [OF h1 h2, of mock_environment 5
    "Some True" "Some (Fin 50)" "Some always_stop"]
  from main a have one: "act_iterations (trace (snd ?X)) = [1, 2]"
    by (simp add: upto.simps)
  from main e1 c1 have two: "length (transitions_at 1 (trace (snd ?X))) = 1"
    by simp
  from main e2 c2 have three: "length (transitions_at 2 (trace (snd ?X))) = 0"
    by simp
  let ?states = "projr (fst ?X)"
  let ?F = "\<lambda>i e. case e of None \<Rightarrow> False
         | Some ev \<Rightarrow> converges_by_rule (s_options streaming_mock) i ev"
  from main s(1) have four: "map ss_iteration ?states = [0..int (length ?states) - 1]"
    and five: "\<forall>s\<in>set ?states. ss_converged s = ?F (ss_iteration s) (ss_evaluation s)"
    by blast+
  from four s(2) have six: "map ss_iteration ?states = [0, 1, 2]"
    by (simp add: upto.simps)
  from five have "map ss_converged ?states =
      map (\<lambda>s. ?F (ss_iteration s) (ss_evaluation s)) ?states"
    by simp
  also have "\<dots> = map (\<lambda>(i, e). ?F i e)
      (zip (map ss_iteration ?states) (map ss_evaluation ?states))"
    by (simp add: zip_map_map zip_same_conv_map)
  also have "\<dots> = [False, False, True]"
    unfolding six s(3) using c1 c2 by simp
  finally have seven: "map ss_converged ?states = [False, False, True]" .
  from main have eight: "executeStream
      (with_batch_rules (Some True) (Some (Fin 50)) (Some always_stop) streaming_mock)
      mock_environment 5 fresh = ?X" by blast
  from h1 h2 one e1 c1 two e2 c2 three six seven eight show ?thesis by blast
qed

subsection \<open>The outcomes of the blocks of the loop body\<close>

lemma sink_failed_emit: "fst (emit p env ev rt) = Some e \<Longrightarrow> sink_failed p env e"
  by (auto simp: sink_failed_def)

lemma sink_failed_log: "fst (log p env l rt) = Some e \<Longrightarrow> sink_failed p env e"
  by (auto simp: sink_failed_def)

lemma check_stop_cases [consumes 1, case_names continue stopped stop_failed]:
  fixes p :: "('i, 's, 'a, 'r, 'w) processor"
  assumes run: "check_stop p env i ev d rsn v rt = (r, v', rt')"
  obtains
    (continue) "\<not> d" "r = Inr Continue" "v' = v" "rt' = rt"
  | (stopped) "d" "r = Inr Break" "v' = v\<lparr>v_terminationReason := rsn\<rparr>"
      "steps (trace rt') = steps (trace rt) @ [Emitted (Ev_converged i (score ev))]"
  | (stop_failed) e tail where "d" "r = Inl e" "v' = v\<lparr>v_terminationReason := rsn\<rparr>"
      "steps (trace rt') = steps (trace rt) @ tail"
      "tail = [] \<or> tail = [Emitted (Ev_converged i (score ev))]"
      "sink_failed p env e"
proof -
  let ?S = "check_stop p env i ev d rsn v rt"
  have r: "r = fst ?S" and v': "v' = fst (snd ?S)" and rt': "rt' = snd (snd ?S)"
    by (simp_all add: run)
  show thesis
  proof (cases d)
    case False
    then show thesis
      by (intro continue) (simp_all add: r v' rt' check_stop_def)
  next
    case True
    let ?l = "log p env (Log_terminating rsn (score ev)) rt"
    show thesis
    proof (cases "fst ?l")
      case (Some e)
      show thesis
        by (rule stop_failed [of e "[]"])
           (simp_all add: r v' rt' check_stop_def True attempt_threw [OF Some] leave_def
              sink_failed_log [OF Some])
    next
      case None
      let ?e = "emit p env (Ev_converged i (score ev)) (snd ?l)"
      show thesis
      proof (cases "fst ?e")
        case (Some e)
        show thesis
          by (rule stop_failed [of e "[Emitted (Ev_converged i (score ev))]"])
             (simp_all add: r v' rt' check_stop_def True attempt_returned [OF None]
                attempt_threw [OF Some] leave_def sink_failed_emit [OF Some])
      next
        case ok: None
        show thesis
          by (rule stopped)
             (simp_all add: r v' rt' check_stop_def True attempt_returned [OF None]
                attempt_returned [OF ok])
      qed
    qed
  qed
qed

lemma run_transition_cases
  [consumes 1, case_names gate_closed threw report_threw returned]:
  fixes p :: "('i, 's, 'a, 'r, 'w) processor"
  assumes run: "run_transition p env i ctx ar ev d v rt = (r, v', rt')"
  obtains
    (gate_closed) "(d \<or> i = maxIterations (config p) - 1) \<and> \<not> alwaysRunTransition (config p)"
      "r = Inr ()" "v' = v" "rt' = rt"
  | (threw) e where
      "\<not> ((d \<or> i = maxIterations (config p) - 1) \<and> \<not> alwaysRunTransition (config p))"
      "r = Inl e" "v' = v"
      "steps (trace rt') = steps (trace rt) @ [Called_transition (v_state v) ar ev ctx (Inl e)]"
      "\<exists>w. fst (transition (options p) (v_state v) ar ev ctx w) = Inl e"
  | (report_threw) e st' where
      "\<not> ((d \<or> i = maxIterations (config p) - 1) \<and> \<not> alwaysRunTransition (config p))"
      "r = Inl e" "v' = v\<lparr>v_state := st'\<rparr>"
      "steps (trace rt') = steps (trace rt) @
         [Called_transition (v_state v) ar ev ctx (Inr st'), Emitted (Ev_transition_complete i st')]"
      "sink_failed p env e"
  | (returned) st' where
      "\<not> ((d \<or> i = maxIterations (config p) - 1) \<and> \<not> alwaysRunTransition (config p))"
      "r = Inr ()" "v' = v\<lparr>v_state := st'\<rparr>"
      "steps (trace rt') = steps (trace rt) @
         [Called_transition (v_state v) ar ev ctx (Inr st'), Emitted (Ev_transition_complete i st')]"
proof -
  let ?S = "run_transition p env i ctx ar ev d v rt"
  have r: "r = fst ?S" and v': "v' = fst (snd ?S)" and rt': "rt' = snd (snd ?S)"
    by (simp_all add: run)
  let ?gate = "\<not> ((d \<or> i = maxIterations (config p) - 1) \<and> \<not> alwaysRunTransition (config p))"
  have g: "(shouldRunTransition (i = maxIterations (config p) - 1)
             (alwaysRunTransition (config p)) d
            \<or> (alwaysRunTransition (config p) \<and> d)) = ?gate"
    by (auto simp: shouldRunTransition_def)
  have S: "?S =
     (if ?gate
      then (case call_transition p (v_state v) ar ev ctx rt of
              (Inl e, rt1) \<Rightarrow> (Inl e, v, rt1)
            | (Inr st', rt1) \<Rightarrow>
                attempt (emit p env (Ev_transition_complete i st') rt1)
                  (leave (v\<lparr>v_state := st'\<rparr>))
                  (\<lambda>rt2. attempt (log p env Log_transition_complete rt2)
                     (leave (v\<lparr>v_state := st'\<rparr>))
                     (\<lambda>rt3. (Inr (), v\<lparr>v_state := st'\<rparr>, rt3))))
      else (Inr (), v, rt))"
    unfolding run_transition_def Let_def g by (rule refl)
  show thesis
  proof (cases ?gate)
    case False
    then show thesis
      by (intro gate_closed) (simp_all add: r v' rt' S)
  next
    case True
    let ?t = "call_transition p (v_state v) ar ev ctx rt"
    have st: "steps (trace (snd ?t)) =
                steps (trace rt) @ [Called_transition (v_state v) ar ev ctx (fst ?t)]"
      by (simp add: call_transition_def case_prod_beta steps_Cons)
    have ft: "fst ?t = fst (transition (options p) (v_state v) ar ev ctx (world rt))"
      by (simp add: call_transition_def case_prod_beta)
    show thesis
    proof (cases "fst ?t")
      case (Inl e)
      from Inl ft have cause: "\<exists>w. fst (transition (options p) (v_state v) ar ev ctx w) = Inl e"
        by (intro exI [of _ "world rt"]) simp
      show thesis
        using True st cause
        by (intro threw [of e])
           (simp_all add: r v' rt' S case_prod_beta Inl)
    next
      case (Inr st')
      let ?e = "emit p env (Ev_transition_complete i st') (snd ?t)"
      show thesis
      proof (cases "fst ?e")
        case (Some e)
        show thesis
          using True st
          by (intro report_threw [of e st'])
             (simp_all add: r v' rt' S case_prod_beta Inr
                attempt_threw [OF Some] leave_def sink_failed_emit [OF Some])
      next
        case None
        let ?l = "log p env Log_transition_complete (snd ?e)"
        show thesis
        proof (cases "fst ?l")
          case (Some e)
          show thesis
            using True st
            by (intro report_threw [of e st'])
               (simp_all add: r v' rt' S case_prod_beta Inr
                  attempt_returned [OF None] attempt_threw [OF Some] leave_def
                  sink_failed_log [OF Some])
        next
          case ok: None
          show thesis
            using True st
            by (intro returned [of st'])
               (simp_all add: r v' rt' S case_prod_beta Inr
                  attempt_returned [OF None] attempt_returned [OF ok])
        qed
      qed
    qed
  qed
qed

lemma checkTermination_steps [case_names failed decided]:
  fixes p :: "('i, 's, 'a, 'r, 'w) processor"
  obtains
    (failed) e where
      "fst (checkTermination p st ev ctx i rt) = Inl e"
      "steps (trace (snd (checkTermination p st ev ctx i rt))) =
         steps (trace rt) @ [Called_shouldTerminate st ev ctx (Inl e)]"
      "\<exists>f w. shouldTerminate (options p) = Some f \<and> fst (f st ev ctx w) = Inl e"
  | (decided) d rsn cs where
      "fst (checkTermination p st ev ctx i rt) = Inr (d, rsn)"
      "steps (trace (snd (checkTermination p st ev ctx i rt))) = steps (trace rt) @ cs"
      "cs = [] \<or> (\<exists>b. cs = [Called_shouldTerminate st ev ctx (Inr b)])"
proof (cases "shouldTerminate (options p)")
  case None
  have "\<exists>d rsn. fst (checkTermination p st ev ctx i rt) = Inr (d, rsn)"
    using None by (auto simp: checkTermination_def Let_def)
  then obtain d rsn where "fst (checkTermination p st ev ctx i rt) = Inr (d, rsn)" by blast
  then show thesis
    using None by (intro decided [of d rsn "[]"]) (simp_all add: checkTermination_def Let_def)
next
  case (Some f)
  let ?c = "f st ev ctx (world rt)"
  have tr: "steps (trace (snd (checkTermination p st ev ctx i rt))) =
              steps (trace rt) @ [Called_shouldTerminate st ev ctx (fst ?c)]"
    using Some
    by (simp add: checkTermination_def Let_def case_prod_beta steps_Cons
          split: sum.splits bool.splits)
  show thesis
  proof (cases "fst ?c")
    case (Inl e)
    with Some have "fst (checkTermination p st ev ctx i rt) = Inl e"
      by (simp add: checkTermination_def Let_def case_prod_beta)
    then show thesis using tr Inl Some by (intro failed [of e]) auto
  next
    case (Inr b)
    with Some have "\<exists>d rsn. fst (checkTermination p st ev ctx i rt) = Inr (d, rsn)"
      by (cases b) (auto simp: checkTermination_def Let_def case_prod_beta)
    then obtain d rsn where "fst (checkTermination p st ev ctx i rt) = Inr (d, rsn)" by blast
    then show thesis using tr Inr
      by (intro decided [of d rsn "[Called_shouldTerminate st ev ctx (Inr b)]"]) simp_all
  qed
qed

lemma transition_and_terminate_cases
  [consumes 1, case_names check_failed skipped_continue skipped_stop transition_failed transition_complete_failed transitioned_continue transitioned_stop]:
  fixes p :: "('i, 's, 'a, 'r, 'w) processor"
  assumes run: "transition_and_terminate p env i ctx ar ev v rt = (r, v', rt')"
  obtains
    (check_failed) e where
      "r = Inl e"
      "v' = v"
      "steps (trace rt') = steps (trace rt) @ [Called_shouldTerminate (v_state v) ev ctx (Inl e)]"
      "\<exists>f w. shouldTerminate (options p) = Some f \<and> fst (f (v_state v) ev ctx w) = Inl e"
  | (skipped_continue) cs rsn where
      "((False \<or> i = maxIterations (config p) - 1) \<and> \<not> alwaysRunTransition (config p))"
      "r = Inr Continue"
      "v' = v"
      "steps (trace rt') = steps (trace rt) @ cs @ [Termination_checked i False rsn]"
      "cs = [] \<or> (\<exists>b. cs = [Called_shouldTerminate (v_state v) ev ctx (Inr b)])"
  | (skipped_stop) cs rsn tail where
      "((True \<or> i = maxIterations (config p) - 1) \<and> \<not> alwaysRunTransition (config p))"
      "r = Inr Break \<or> (\<exists>e. r = Inl e \<and> sink_failed p env e)"
      "v' = v\<lparr>v_terminationReason := rsn\<rparr>"
      "steps (trace rt') = steps (trace rt) @ cs @ [Termination_checked i True rsn] @ tail"
      "cs = [] \<or> (\<exists>b. cs = [Called_shouldTerminate (v_state v) ev ctx (Inr b)])"
      "tail = [] \<or> tail = [Emitted (Ev_converged i (score ev))]"
  | (transition_failed) cs d rsn e where
      "\<not> ((d \<or> i = maxIterations (config p) - 1) \<and> \<not> alwaysRunTransition (config p))"
      "r = Inl e"
      "v' = v"
      "steps (trace rt') = steps (trace rt) @ cs @ [Termination_checked i d rsn, Called_transition (v_state v) ar ev ctx (Inl e)]"
      "cs = [] \<or> (\<exists>b. cs = [Called_shouldTerminate (v_state v) ev ctx (Inr b)])"
      "\<exists>w. fst (transition (options p) (v_state v) ar ev ctx w) = Inl e"
  | (transition_complete_failed) cs d rsn e st' where
      "\<not> ((d \<or> i = maxIterations (config p) - 1) \<and> \<not> alwaysRunTransition (config p))"
      "r = Inl e"
      "v' = v\<lparr>v_state := st'\<rparr>"
      "steps (trace rt') = steps (trace rt) @ cs @ [Termination_checked i d rsn, Called_transition (v_state v) ar ev ctx (Inr st'), Emitted (Ev_transition_complete i st')]"
      "cs = [] \<or> (\<exists>b. cs = [Called_shouldTerminate (v_state v) ev ctx (Inr b)])"
      "sink_failed p env e"
  | (transitioned_continue) cs rsn st' where
      "\<not> ((False \<or> i = maxIterations (config p) - 1) \<and> \<not> alwaysRunTransition (config p))"
      "r = Inr Continue"
      "v' = v\<lparr>v_state := st'\<rparr>"
      "steps (trace rt') = steps (trace rt) @ cs @ [Termination_checked i False rsn, Called_transition (v_state v) ar ev ctx (Inr st'), Emitted (Ev_transition_complete i st')]"
      "cs = [] \<or> (\<exists>b. cs = [Called_shouldTerminate (v_state v) ev ctx (Inr b)])"
  | (transitioned_stop) cs rsn st' tail where
      "\<not> ((True \<or> i = maxIterations (config p) - 1) \<and> \<not> alwaysRunTransition (config p))"
      "r = Inr Break \<or> (\<exists>e. r = Inl e \<and> sink_failed p env e)"
      "v' = v\<lparr>v_state := st', v_terminationReason := rsn\<rparr>"
      "steps (trace rt') = steps (trace rt) @ cs @ [Termination_checked i True rsn, Called_transition (v_state v) ar ev ctx (Inr st'), Emitted (Ev_transition_complete i st')] @ tail"
      "cs = [] \<or> (\<exists>b. cs = [Called_shouldTerminate (v_state v) ev ctx (Inr b)])"
      "tail = [] \<or> tail = [Emitted (Ev_converged i (score ev))]"
proof -
  let ?S = "transition_and_terminate p env i ctx ar ev v rt"
  let ?c = "checkTermination p (v_state v) ev ctx i rt"
  have r: "r = fst ?S" and v': "v' = fst (snd ?S)" and rt': "rt' = snd (snd ?S)"
    by (simp_all add: run)
  show thesis
  proof (cases rule: checkTermination_steps [of p "v_state v" ev ctx i rt])
    case (failed e)
    then show thesis
      by (intro check_failed [where e = e])
         (simp_all add: r v' rt' transition_and_terminate_def case_prod_beta)
  next
    case (decided d rsn cs)
    let ?rt1 = "observe (Termination_checked i d rsn) (snd ?c)"
    let ?t = "run_transition p env i ctx ar ev d v ?rt1"
    have s1: "steps (trace ?rt1) = steps (trace rt) @ cs @ [Termination_checked i d rsn]"
      using decided(2) by (simp add: steps_Cons)
    obtain r2 v2 rt2 where t: "?t = (r2, v2, rt2)"
      by (cases ?t) auto
    from t show thesis
    proof (cases rule: run_transition_cases)
      case gate_closed
      have "check_stop p env i ev d rsn v ?rt1 = ?S"
        using t decided(1) gate_closed(2,3,4)
        by (simp add: transition_and_terminate_def case_prod_beta)
      with run have c: "check_stop p env i ev d rsn v ?rt1 = (r, v', rt')" by simp
      from c show thesis
      proof (cases rule: check_stop_cases)
        case continue
        with gate_closed(1) s1 decided(3) show thesis
          by (intro skipped_continue [where cs = cs and rsn = rsn]) simp_all
      next
        case stopped
        with gate_closed(1) s1 decided(3) show thesis
          by (intro skipped_stop [where cs = cs and rsn = rsn
                and tail = "[Emitted (Ev_converged i (score ev))]"]) simp_all
      next
        case (stop_failed e tail)
        with gate_closed(1) s1 decided(3) show thesis
          by (intro skipped_stop [where cs = cs and rsn = rsn and tail = tail]) simp_all
      qed
    next
      case (threw e)
      have "?S = (Inl e, v, rt2)"
        using t decided(1) threw(2,3)
        by (simp add: transition_and_terminate_def case_prod_beta)
      with threw(1,4,5) s1 decided(3) show thesis
        by (intro transition_failed [where cs = cs and d = d and rsn = rsn and e = e]) (simp_all add: r v' rt')
    next
      case (report_threw e st')
      have "?S = (Inl e, v\<lparr>v_state := st'\<rparr>, rt2)"
        using t decided(1) report_threw(2,3)
        by (simp add: transition_and_terminate_def case_prod_beta)
      with report_threw(1,4,5) s1 decided(3) show thesis
        by (intro transition_complete_failed
              [where cs = cs and d = d and rsn = rsn and e = e and st' = st']) (simp_all add: r v' rt')
    next
      case (returned st')
      have "check_stop p env i ev d rsn (v\<lparr>v_state := st'\<rparr>) rt2 = ?S"
        using t decided(1) returned(2,3)
        by (simp add: transition_and_terminate_def case_prod_beta)
      with run
      have c: "check_stop p env i ev d rsn (v\<lparr>v_state := st'\<rparr>) rt2 = (r, v', rt')"
        by simp
      from c show thesis
      proof (cases rule: check_stop_cases)
        case continue
        with returned(1,4) s1 decided(3) show thesis
          by (intro transitioned_continue [where cs = cs and rsn = rsn and st' = st']) simp_all
      next
        case stopped
        with returned(1,4) s1 decided(3) show thesis
          by (intro transitioned_stop [where cs = cs and rsn = rsn and st' = st'
                and tail = "[Emitted (Ev_converged i (score ev))]"]) simp_all
      next
        case (stop_failed e tail)
        with returned(1,4) s1 decided(3) show thesis
          by (intro transitioned_stop [where cs = cs and rsn = rsn and st' = st' and tail = tail]) simp_all
      qed
    qed
  qed
qed

lemma record_iteration_cases
  [consumes 1, case_names evaluation_complete_failed iteration_complete_failed check_failed skipped_continue skipped_stop transition_failed transition_complete_failed transitioned_continue transitioned_stop]:
  fixes p :: "('i, 's, 'a, 'r, 'w) processor"
  assumes run: "record_iteration p env t0 i ctx ar ev v rt = (r, v', rt')"
  obtains
    (evaluation_complete_failed) e where
      "r = Inl e"
      "v' = v\<lparr>v_finalEvaluation := ev\<rparr>"
      "steps (trace rt') = steps (trace rt) @ [Emitted (Ev_evaluation_complete i ev)]"
      "sink_failed p env e"
  | (iteration_complete_failed) e h where
      "r = Inl e"
      "v' = v\<lparr>v_finalEvaluation := ev, v_history := v_history v @ [h]\<rparr>"
      "steps (trace rt') = steps (trace rt) @ [Emitted (Ev_evaluation_complete i ev), Emitted (Ev_iteration_complete i h)]"
      "sink_failed p env e"
      "h_iteration h = i"
      "h_actionResult h = ar"
      "h_evaluation h = ev"
  | (check_failed) e h where
      "r = Inl e"
      "v' = v\<lparr>v_finalEvaluation := ev, v_history := v_history v @ [h]\<rparr>"
      "steps (trace rt') = steps (trace rt) @ [Emitted (Ev_evaluation_complete i ev), Emitted (Ev_iteration_complete i h), Called_shouldTerminate (v_state v) ev ctx (Inl e)]"
      "\<exists>f w. shouldTerminate (options p) = Some f \<and> fst (f (v_state v) ev ctx w) = Inl e"
      "h_iteration h = i"
      "h_actionResult h = ar"
      "h_evaluation h = ev"
  | (skipped_continue) cs rsn h where
      "((False \<or> i = maxIterations (config p) - 1) \<and> \<not> alwaysRunTransition (config p))"
      "r = Inr Continue"
      "v' = v\<lparr>v_finalEvaluation := ev, v_history := v_history v @ [h]\<rparr>"
      "steps (trace rt') = steps (trace rt) @ [Emitted (Ev_evaluation_complete i ev), Emitted (Ev_iteration_complete i h)] @ cs @ [Termination_checked i False rsn]"
      "cs = [] \<or> (\<exists>b. cs = [Called_shouldTerminate (v_state v) ev ctx (Inr b)])"
      "h_iteration h = i"
      "h_actionResult h = ar"
      "h_evaluation h = ev"
  | (skipped_stop) cs rsn tail h where
      "((True \<or> i = maxIterations (config p) - 1) \<and> \<not> alwaysRunTransition (config p))"
      "r = Inr Break \<or> (\<exists>e. r = Inl e \<and> sink_failed p env e)"
      "v' = v\<lparr>v_finalEvaluation := ev, v_history := v_history v @ [h]\<rparr>\<lparr>v_terminationReason := rsn\<rparr>"
      "steps (trace rt') = steps (trace rt) @ [Emitted (Ev_evaluation_complete i ev), Emitted (Ev_iteration_complete i h)] @ cs @ [Termination_checked i True rsn] @ tail"
      "cs = [] \<or> (\<exists>b. cs = [Called_shouldTerminate (v_state v) ev ctx (Inr b)])"
      "tail = [] \<or> tail = [Emitted (Ev_converged i (score ev))]"
      "h_iteration h = i"
      "h_actionResult h = ar"
      "h_evaluation h = ev"
  | (transition_failed) cs d rsn e h where
      "\<not> ((d \<or> i = maxIterations (config p) - 1) \<and> \<not> alwaysRunTransition (config p))"
      "r = Inl e"
      "v' = v\<lparr>v_finalEvaluation := ev, v_history := v_history v @ [h]\<rparr>"
      "steps (trace rt') = steps (trace rt) @ [Emitted (Ev_evaluation_complete i ev), Emitted (Ev_iteration_complete i h)] @ cs @ [Termination_checked i d rsn, Called_transition (v_state v) ar ev ctx (Inl e)]"
      "cs = [] \<or> (\<exists>b. cs = [Called_shouldTerminate (v_state v) ev ctx (Inr b)])"
      "\<exists>w. fst (transition (options p) (v_state v) ar ev ctx w) = Inl e"
      "h_iteration h = i"
      "h_actionResult h = ar"
      "h_evaluation h = ev"
  | (transition_complete_failed) cs d rsn e st' h where
      "\<not> ((d \<or> i = maxIterations (config p) - 1) \<and> \<not> alwaysRunTransition (config p))"
      "r = Inl e"
      "v' = v\<lparr>v_finalEvaluation := ev, v_history := v_history v @ [h]\<rparr>\<lparr>v_state := st'\<rparr>"
      "steps (trace rt') = steps (trace rt) @ [Emitted (Ev_evaluation_complete i ev), Emitted (Ev_iteration_complete i h)] @ cs @ [Termination_checked i d rsn, Called_transition (v_state v) ar ev ctx (Inr st'), Emitted (Ev_transition_complete i st')]"
      "cs = [] \<or> (\<exists>b. cs = [Called_shouldTerminate (v_state v) ev ctx (Inr b)])"
      "sink_failed p env e"
      "h_iteration h = i"
      "h_actionResult h = ar"
      "h_evaluation h = ev"
  | (transitioned_continue) cs rsn st' h where
      "\<not> ((False \<or> i = maxIterations (config p) - 1) \<and> \<not> alwaysRunTransition (config p))"
      "r = Inr Continue"
      "v' = v\<lparr>v_finalEvaluation := ev, v_history := v_history v @ [h]\<rparr>\<lparr>v_state := st'\<rparr>"
      "steps (trace rt') = steps (trace rt) @ [Emitted (Ev_evaluation_complete i ev), Emitted (Ev_iteration_complete i h)] @ cs @ [Termination_checked i False rsn, Called_transition (v_state v) ar ev ctx (Inr st'), Emitted (Ev_transition_complete i st')]"
      "cs = [] \<or> (\<exists>b. cs = [Called_shouldTerminate (v_state v) ev ctx (Inr b)])"
      "h_iteration h = i"
      "h_actionResult h = ar"
      "h_evaluation h = ev"
  | (transitioned_stop) cs rsn st' tail h where
      "\<not> ((True \<or> i = maxIterations (config p) - 1) \<and> \<not> alwaysRunTransition (config p))"
      "r = Inr Break \<or> (\<exists>e. r = Inl e \<and> sink_failed p env e)"
      "v' = v\<lparr>v_finalEvaluation := ev, v_history := v_history v @ [h]\<rparr>\<lparr>v_state := st', v_terminationReason := rsn\<rparr>"
      "steps (trace rt') = steps (trace rt) @ [Emitted (Ev_evaluation_complete i ev), Emitted (Ev_iteration_complete i h)] @ cs @ [Termination_checked i True rsn, Called_transition (v_state v) ar ev ctx (Inr st'), Emitted (Ev_transition_complete i st')] @ tail"
      "cs = [] \<or> (\<exists>b. cs = [Called_shouldTerminate (v_state v) ev ctx (Inr b)])"
      "tail = [] \<or> tail = [Emitted (Ev_converged i (score ev))]"
      "h_iteration h = i"
      "h_actionResult h = ar"
      "h_evaluation h = ev"
proof -
  note L = check_failed skipped_continue skipped_stop transition_failed transition_complete_failed transitioned_continue transitioned_stop
  let ?S = "record_iteration p env t0 i ctx ar ev v rt"
  have r: "r = fst ?S" and v': "v' = fst (snd ?S)" and rt': "rt' = snd (snd ?S)"
    by (simp_all add: run)
  let ?e1 = "emit p env (Ev_evaluation_complete i ev) rt"
  let ?l1 = "log p env (Log_evaluation_complete (score ev) (shouldContinue ev)) (snd ?e1)"
  let ?rt3 = "snd (now env (snd ?l1))"
  let ?rt4 = "snd (now env ?rt3)"
  let ?h = "\<lparr>h_iteration = i, h_actionResult = ar, h_evaluation = ev,
     timestamp = fst (now env (snd ?l1)), duration = fst (now env ?rt3) - t0\<rparr>"
  let ?v2 = "v\<lparr>v_finalEvaluation := ev, v_history := v_history v @ [?h]\<rparr>"
  let ?e2 = "emit p env (Ev_iteration_complete i ?h) ?rt4"
  show thesis
  proof (cases "fst ?e1")
    case (Some e)
    show thesis
      by (intro evaluation_complete_failed [where e = e])
         (simp_all add: r v' rt' record_iteration_def Let_def attempt_threw [OF Some] leave_def
            sink_failed_emit [OF Some])
  next
    case None
    show thesis
    proof (cases "fst ?l1")
      case (Some e)
      show thesis
        by (intro evaluation_complete_failed [where e = e])
           (simp_all add: r v' rt' record_iteration_def Let_def attempt_returned [OF None]
              attempt_threw [OF Some] leave_def sink_failed_log [OF Some])
    next
      case logged: None
      show thesis
      proof (cases "fst ?e2")
        case (Some e)
        show thesis
          by (intro iteration_complete_failed [where e = e and h = ?h])
             (simp_all add: r v' rt' record_iteration_def Let_def case_prod_beta
                attempt_returned [OF None] attempt_returned [OF logged]
                attempt_threw [OF Some] leave_def sink_failed_emit [OF Some])
      next
        case emitted: None
        have s5: "steps (trace (snd ?e2)) = steps (trace rt) @
                    [Emitted (Ev_evaluation_complete i ev), Emitted (Ev_iteration_complete i ?h)]"
          by simp
        have h: "h_iteration ?h = i" "h_actionResult ?h = ar" "h_evaluation ?h = ev"
          by simp_all
        have "transition_and_terminate p env i ctx ar ev ?v2 (snd ?e2) = ?S"
          by (simp add: record_iteration_def Let_def case_prod_beta
                attempt_returned [OF None] attempt_returned [OF logged]
                attempt_returned [OF emitted])
        with run have "transition_and_terminate p env i ctx ar ev ?v2 (snd ?e2) = (r, v', rt')"
          by simp
        then show thesis
        proof (cases rule: transition_and_terminate_cases)
          case (check_failed e)
          with s5 h show thesis
            by (intro L(1) [where e = e and h = ?h]) simp_all
        next
          case (skipped_continue cs rsn)
          with s5 h show thesis
            by (intro L(2) [where cs = cs and rsn = rsn and h = ?h]) simp_all
        next
          case (skipped_stop cs rsn tail)
          with s5 h show thesis
            by (intro L(3) [where cs = cs and rsn = rsn and tail = tail and h = ?h]) simp_all
        next
          case (transition_failed cs d rsn e)
          with s5 h show thesis
            by (intro L(4) [where cs = cs and d = d and rsn = rsn and e = e and h = ?h]) simp_all
        next
          case (transition_complete_failed cs d rsn e st')
          with s5 h show thesis
            by (intro L(5) [where cs = cs and d = d and rsn = rsn and e = e and st' = st' and h = ?h]) simp_all
        next
          case (transitioned_continue cs rsn st')
          with s5 h show thesis
            by (intro L(6) [where cs = cs and rsn = rsn and st' = st' and h = ?h]) simp_all
        next
          case (transitioned_stop cs rsn st' tail)
          with s5 h show thesis
            by (intro L(7) [where cs = cs and rsn = rsn and st' = st' and tail = tail and h = ?h]) simp_all
        qed
      qed
    qed
  qed
qed

lemma run_iteration_cases
  [consumes 1, case_names timed_out timeout_log_failed start_failed act_failed action_complete_failed evaluate_failed evaluation_complete_failed iteration_complete_failed check_failed skipped_continue skipped_stop transition_failed transition_complete_failed transitioned_continue transitioned_stop]:
  fixes p :: "('i, 's, 'a, 'r, 'w) processor"
  assumes run: "run_iteration p env startTime i v rt = (r, v', rt')"
  obtains
    (timed_out)
      "r = Inr Break"
      "v' = v\<lparr>v_terminationReason := Timeout\<rparr>"
      "steps (trace rt') = steps (trace rt)"
  | (timeout_log_failed) e where
      "r = Inl e"
      "v' = v"
      "steps (trace rt') = steps (trace rt)"
      "sink_failed p env e"
  | (start_failed) e where
      "r = Inl e"
      "v' = v"
      "steps (trace rt') = steps (trace rt) @ [Emitted (Ev_iteration_start i)]"
      "sink_failed p env e"
  | (act_failed) e ctx where
      "r = Inl e"
      "v' = v"
      "steps (trace rt') = steps (trace rt) @ [Emitted (Ev_iteration_start i), Called_act (v_state v) ctx (Inl e)]"
      "\<exists>w. fst (act (options p) (v_state v) ctx w) = Inl e"
      "ctx_iteration ctx = i"
      "previousEvaluation ctx = (if 0 < i then Some (v_finalEvaluation v) else None)"
  | (action_complete_failed) e ctx ar where
      "r = Inl e"
      "v' = v"
      "steps (trace rt') = steps (trace rt) @ [Emitted (Ev_iteration_start i), Called_act (v_state v) ctx (Inr ar), Emitted (Ev_action_complete i ar)]"
      "sink_failed p env e \<or> json_length env (data ar) = Inl e"
      "ctx_iteration ctx = i"
      "previousEvaluation ctx = (if 0 < i then Some (v_finalEvaluation v) else None)"
  | (evaluate_failed) e ctx ar where
      "r = Inl e"
      "v' = v"
      "steps (trace rt') = steps (trace rt) @ [Emitted (Ev_iteration_start i), Called_act (v_state v) ctx (Inr ar), Emitted (Ev_action_complete i ar), Called_evaluate (v_state v) ar ctx (Inl e)]"
      "\<exists>w. fst (evaluate (options p) (v_state v) ar ctx w) = Inl e"
      "ctx_iteration ctx = i"
      "previousEvaluation ctx = (if 0 < i then Some (v_finalEvaluation v) else None)"
  | (evaluation_complete_failed) e ctx ar ev where
      "r = Inl e"
      "v' = v\<lparr>v_finalEvaluation := ev\<rparr>"
      "steps (trace rt') = steps (trace rt) @ [Emitted (Ev_iteration_start i), Called_act (v_state v) ctx (Inr ar), Emitted (Ev_action_complete i ar), Called_evaluate (v_state v) ar ctx (Inr ev), Emitted (Ev_evaluation_complete i ev)]"
      "sink_failed p env e"
      "ctx_iteration ctx = i"
      "previousEvaluation ctx = (if 0 < i then Some (v_finalEvaluation v) else None)"
  | (iteration_complete_failed) e h ctx ar ev where
      "r = Inl e"
      "v' = v\<lparr>v_finalEvaluation := ev, v_history := v_history v @ [h]\<rparr>"
      "steps (trace rt') = steps (trace rt) @ [Emitted (Ev_iteration_start i), Called_act (v_state v) ctx (Inr ar), Emitted (Ev_action_complete i ar), Called_evaluate (v_state v) ar ctx (Inr ev), Emitted (Ev_evaluation_complete i ev), Emitted (Ev_iteration_complete i h)]"
      "sink_failed p env e"
      "h_iteration h = i"
      "h_actionResult h = ar"
      "h_evaluation h = ev"
      "ctx_iteration ctx = i"
      "previousEvaluation ctx = (if 0 < i then Some (v_finalEvaluation v) else None)"
  | (check_failed) e h ctx ar ev where
      "r = Inl e"
      "v' = v\<lparr>v_finalEvaluation := ev, v_history := v_history v @ [h]\<rparr>"
      "steps (trace rt') = steps (trace rt) @ [Emitted (Ev_iteration_start i), Called_act (v_state v) ctx (Inr ar), Emitted (Ev_action_complete i ar), Called_evaluate (v_state v) ar ctx (Inr ev), Emitted (Ev_evaluation_complete i ev), Emitted (Ev_iteration_complete i h), Called_shouldTerminate (v_state v) ev ctx (Inl e)]"
      "\<exists>f w. shouldTerminate (options p) = Some f \<and> fst (f (v_state v) ev ctx w) = Inl e"
      "h_iteration h = i"
      "h_actionResult h = ar"
      "h_evaluation h = ev"
      "ctx_iteration ctx = i"
      "previousEvaluation ctx = (if 0 < i then Some (v_finalEvaluation v) else None)"
  | (skipped_continue) cs rsn h ctx ar ev where
      "((False \<or> i = maxIterations (config p) - 1) \<and> \<not> alwaysRunTransition (config p))"
      "r = Inr Continue"
      "v' = v\<lparr>v_finalEvaluation := ev, v_history := v_history v @ [h]\<rparr>"
      "steps (trace rt') = steps (trace rt) @ [Emitted (Ev_iteration_start i), Called_act (v_state v) ctx (Inr ar), Emitted (Ev_action_complete i ar), Called_evaluate (v_state v) ar ctx (Inr ev), Emitted (Ev_evaluation_complete i ev), Emitted (Ev_iteration_complete i h)] @ cs @ [Termination_checked i False rsn]"
      "cs = [] \<or> (\<exists>b. cs = [Called_shouldTerminate (v_state v) ev ctx (Inr b)])"
      "h_iteration h = i"
      "h_actionResult h = ar"
      "h_evaluation h = ev"
      "ctx_iteration ctx = i"
      "previousEvaluation ctx = (if 0 < i then Some (v_finalEvaluation v) else None)"
  | (skipped_stop) cs rsn tail h ctx ar ev where
      "((True \<or> i = maxIterations (config p) - 1) \<and> \<not> alwaysRunTransition (config p))"
      "r = Inr Break \<or> (\<exists>e. r = Inl e \<and> sink_failed p env e)"
      "v' = v\<lparr>v_finalEvaluation := ev, v_history := v_history v @ [h]\<rparr>\<lparr>v_terminationReason := rsn\<rparr>"
      "steps (trace rt') = steps (trace rt) @ [Emitted (Ev_iteration_start i), Called_act (v_state v) ctx (Inr ar), Emitted (Ev_action_complete i ar), Called_evaluate (v_state v) ar ctx (Inr ev), Emitted (Ev_evaluation_complete i ev), Emitted (Ev_iteration_complete i h)] @ cs @ [Termination_checked i True rsn] @ tail"
      "cs = [] \<or> (\<exists>b. cs = [Called_shouldTerminate (v_state v) ev ctx (Inr b)])"
      "tail = [] \<or> tail = [Emitted (Ev_converged i (score ev))]"
      "h_iteration h = i"
      "h_actionResult h = ar"
      "h_evaluation h = ev"
      "ctx_iteration ctx = i"
      "previousEvaluation ctx = (if 0 < i then Some (v_finalEvaluation v) else None)"
  | (transition_failed) cs d rsn e h ctx ar ev where
      "\<not> ((d \<or> i = maxIterations (config p) - 1) \<and> \<not> alwaysRunTransition (config p))"
      "r = Inl e"
      "v' = v\<lparr>v_finalEvaluation := ev, v_history := v_history v @ [h]\<rparr>"
      "steps (trace rt') = steps (trace rt) @ [Emitted (Ev_iteration_start i), Called_act (v_state v) ctx (Inr ar), Emitted (Ev_action_complete i ar), Called_evaluate (v_state v) ar ctx (Inr ev), Emitted (Ev_evaluation_complete i ev), Emitted (Ev_iteration_complete i h)] @ cs @ [Termination_checked i d rsn, Called_transition (v_state v) ar ev ctx (Inl e)]"
      "cs = [] \<or> (\<exists>b. cs = [Called_shouldTerminate (v_state v) ev ctx (Inr b)])"
      "\<exists>w. fst (transition (options p) (v_state v) ar ev ctx w) = Inl e"
      "h_iteration h = i"
      "h_actionResult h = ar"
      "h_evaluation h = ev"
      "ctx_iteration ctx = i"
      "previousEvaluation ctx = (if 0 < i then Some (v_finalEvaluation v) else None)"
  | (transition_complete_failed) cs d rsn e st' h ctx ar ev where
      "\<not> ((d \<or> i = maxIterations (config p) - 1) \<and> \<not> alwaysRunTransition (config p))"
      "r = Inl e"
      "v' = v\<lparr>v_finalEvaluation := ev, v_history := v_history v @ [h]\<rparr>\<lparr>v_state := st'\<rparr>"
      "steps (trace rt') = steps (trace rt) @ [Emitted (Ev_iteration_start i), Called_act (v_state v) ctx (Inr ar), Emitted (Ev_action_complete i ar), Called_evaluate (v_state v) ar ctx (Inr ev), Emitted (Ev_evaluation_complete i ev), Emitted (Ev_iteration_complete i h)] @ cs @ [Termination_checked i d rsn, Called_transition (v_state v) ar ev ctx (Inr st'), Emitted (Ev_transition_complete i st')]"
      "cs = [] \<or> (\<exists>b. cs = [Called_shouldTerminate (v_state v) ev ctx (Inr b)])"
      "sink_failed p env e"
      "h_iteration h = i"
      "h_actionResult h = ar"
      "h_evaluation h = ev"
      "ctx_iteration ctx = i"
      "previousEvaluation ctx = (if 0 < i then Some (v_finalEvaluation v) else None)"
  | (transitioned_continue) cs rsn st' h ctx ar ev where
      "\<not> ((False \<or> i = maxIterations (config p) - 1) \<and> \<not> alwaysRunTransition (config p))"
      "r = Inr Continue"
      "v' = v\<lparr>v_finalEvaluation := ev, v_history := v_history v @ [h]\<rparr>\<lparr>v_state := st'\<rparr>"
      "steps (trace rt') = steps (trace rt) @ [Emitted (Ev_iteration_start i), Called_act (v_state v) ctx (Inr ar), Emitted (Ev_action_complete i ar), Called_evaluate (v_state v) ar ctx (Inr ev), Emitted (Ev_evaluation_complete i ev), Emitted (Ev_iteration_complete i h)] @ cs @ [Termination_checked i False rsn, Called_transition (v_state v) ar ev ctx (Inr st'), Emitted (Ev_transition_complete i st')]"
      "cs = [] \<or> (\<exists>b. cs = [Called_shouldTerminate (v_state v) ev ctx (Inr b)])"
      "h_iteration h = i"
      "h_actionResult h = ar"
      "h_evaluation h = ev"
      "ctx_iteration ctx = i"
      "previousEvaluation ctx = (if 0 < i then Some (v_finalEvaluation v) else None)"
  | (transitioned_stop) cs rsn st' tail h ctx ar ev where
      "\<not> ((True \<or> i = maxIterations (config p) - 1) \<and> \<not> alwaysRunTransition (config p))"
      "r = Inr Break \<or> (\<exists>e. r = Inl e \<and> sink_failed p env e)"
      "v' = v\<lparr>v_finalEvaluation := ev, v_history := v_history v @ [h]\<rparr>\<lparr>v_state := st', v_terminationReason := rsn\<rparr>"
      "steps (trace rt') = steps (trace rt) @ [Emitted (Ev_iteration_start i), Called_act (v_state v) ctx (Inr ar), Emitted (Ev_action_complete i ar), Called_evaluate (v_state v) ar ctx (Inr ev), Emitted (Ev_evaluation_complete i ev), Emitted (Ev_iteration_complete i h)] @ cs @ [Termination_checked i True rsn, Called_transition (v_state v) ar ev ctx (Inr st'), Emitted (Ev_transition_complete i st')] @ tail"
      "cs = [] \<or> (\<exists>b. cs = [Called_shouldTerminate (v_state v) ev ctx (Inr b)])"
      "tail = [] \<or> tail = [Emitted (Ev_converged i (score ev))]"
      "h_iteration h = i"
      "h_actionResult h = ar"
      "h_evaluation h = ev"
      "ctx_iteration ctx = i"
      "previousEvaluation ctx = (if 0 < i then Some (v_finalEvaluation v) else None)"
proof -
  note L = evaluation_complete_failed iteration_complete_failed check_failed skipped_continue skipped_stop transition_failed transition_complete_failed transitioned_continue transitioned_stop
  let ?S = "run_iteration p env startTime i v rt"
  have r: "r = fst ?S" and v': "v' = fst (snd ?S)" and rt': "rt' = snd (snd ?S)"
    by (simp_all add: run split del: if_split)
  let ?rt1 = "snd (now env rt)"
  let ?to = "timeout_exceeded p env startTime ?rt1"
  have to: "trace (snd ?to) = trace rt"
    by (simp add: timeout_exceeded_def case_prod_beta split: option.splits)
  show thesis
  proof (cases "fst ?to")
    case True
    let ?l = "log p env Log_timeout (snd ?to)"
    show thesis
    proof (cases "fst ?l")
      case (Some e)
      show thesis
        by (intro timeout_log_failed [where e = e])
           (simp_all add: r v' rt' run_iteration_def Let_def case_prod_beta True
              attempt_threw [OF Some] leave_def to sink_failed_log [OF Some]
              split del: if_split)
    next
      case None
      show thesis
        by (intro timed_out)
           (simp_all add: r v' rt' run_iteration_def Let_def case_prod_beta True
              attempt_returned [OF None] to split del: if_split)
    qed
  next
    case False
    let ?ctx = "\<lparr>ctx_iteration = i, ctx_maxIterations = maxIterations (config p),
                 elapsedTime = fst (now env (snd ?to)) - startTime,
                 previousEvaluation = (if 0 < i then Some (v_finalEvaluation v) else None)\<rparr>"
    let ?e1 = "emit p env (Ev_iteration_start i) (snd (now env (snd ?to)))"
    let ?l1 = "log p env (Log_iteration_started (i + 1) (maxIterations (config p))) (snd ?e1)"
    have s1: "steps (trace (snd ?l1)) = steps (trace rt) @ [Emitted (Ev_iteration_start i)]"
      by (simp add: to split del: if_split)
    show thesis
    proof (cases "fst ?e1")
      case (Some e)
      show thesis
        by (intro start_failed [where e = e])
           (simp_all add: r v' rt' run_iteration_def Let_def case_prod_beta False
              attempt_threw [OF Some] leave_def to sink_failed_emit [OF Some]
              split del: if_split)
    next
      case None
      show thesis
      proof (cases "fst ?l1")
        case (Some e)
        show thesis
          by (intro start_failed [where e = e])
             (simp_all add: r v' rt' run_iteration_def Let_def case_prod_beta False
                attempt_returned [OF None] attempt_threw [OF Some] leave_def to
                sink_failed_log [OF Some] split del: if_split)
      next
        case logged: None
        note a1 = attempt_returned [OF None] attempt_returned [OF logged]
        let ?a = "call_act p (v_state v) ?ctx (snd ?l1)"
        have sa: "steps (trace (snd ?a)) = steps (trace rt)
                    @ [Emitted (Ev_iteration_start i), Called_act (v_state v) ?ctx (fst ?a)]"
          by (simp add: call_act_def case_prod_beta steps_Cons to split del: if_split)
        show thesis
        proof (cases "fst ?a")
          case (Inl e)
          then have cause: "\<exists>w. fst (act (options p) (v_state v) ?ctx w) = Inl e"
            by (intro exI [of _ "world (snd ?l1)"]) (simp add: call_act_def case_prod_beta)
          show thesis
            by (intro act_failed [where e = e and ctx = ?ctx])
               (simp_all add: r v' rt' run_iteration_def Let_def case_prod_beta False a1 Inl sa
                  cause split del: if_split)
        next
          case (Inr ar)
          let ?e2 = "emit p env (Ev_action_complete i ar) (snd ?a)"
          have s2: "steps (trace (snd ?e2)) = steps (trace rt)
                    @ [Emitted (Ev_iteration_start i), Called_act (v_state v) ?ctx (Inr ar),
                       Emitted (Ev_action_complete i ar)]"
            by (simp add: sa Inr split del: if_split)
          show thesis
          proof (cases "fst ?e2")
            case (Some e)
            show thesis
              by (intro action_complete_failed [where e = e and ctx = ?ctx and ar = ar])
                 (simp_all add: r v' rt' run_iteration_def Let_def case_prod_beta False a1 Inr
                    attempt_threw [OF Some] leave_def sa sink_failed_emit [OF Some]
                    split del: if_split)
          next
            case emitted: None
            note a2 = a1 attempt_returned [OF emitted]
            show thesis
            proof (cases "json_length env (data ar)")
              case (Inl e)
              show thesis
                by (intro action_complete_failed [where e = e and ctx = ?ctx and ar = ar])
                   (simp_all add: r v' rt' run_iteration_def Let_def case_prod_beta False a2 Inr
                      Inl sa split del: if_split)
            next
              case size: (Inr n)
              let ?l2 = "log p env (Log_action_complete n) (snd ?e2)"
              show thesis
              proof (cases "fst ?l2")
                case (Some e)
                show thesis
                  by (intro action_complete_failed [where e = e and ctx = ?ctx and ar = ar])
                     (simp_all add: r v' rt' run_iteration_def Let_def case_prod_beta False a2
                        Inr size attempt_threw [OF Some] leave_def sa sink_failed_log [OF Some]
                        split del: if_split)
              next
                case logged2: None
                note a3 = a2 attempt_returned [OF logged2]
                let ?e = "call_evaluate p (v_state v) ar ?ctx (snd ?l2)"
                have se: "steps (trace (snd ?e)) = steps (trace rt)
                    @ [Emitted (Ev_iteration_start i), Called_act (v_state v) ?ctx (Inr ar),
                       Emitted (Ev_action_complete i ar),
                       Called_evaluate (v_state v) ar ?ctx (fst ?e)]"
                  by (simp add: call_evaluate_def case_prod_beta steps_Cons sa Inr split del: if_split)
                show thesis
                proof (cases "fst ?e")
                  case (Inl e)
                  then have cause:
                    "\<exists>w. fst (evaluate (options p) (v_state v) ar ?ctx w) = Inl e"
                    by (intro exI [of _ "world (snd ?l2)"])
                       (simp add: call_evaluate_def case_prod_beta)
                  show thesis
                    by (intro evaluate_failed [where e = e and ctx = ?ctx and ar = ar])
                       (simp_all add: r v' rt' run_iteration_def Let_def case_prod_beta False a3
                          Inr size Inl se cause split del: if_split)
                next
                  case ev: (Inr ev)
                  have c: "ctx_iteration ?ctx = i"
                    "previousEvaluation ?ctx = (if 0 < i then Some (v_finalEvaluation v) else None)"
                    by simp_all
                  have se': "steps (trace (snd ?e)) = steps (trace rt)
                    @ [Emitted (Ev_iteration_start i), Called_act (v_state v) ?ctx (Inr ar),
                       Emitted (Ev_action_complete i ar),
                       Called_evaluate (v_state v) ar ?ctx (Inr ev)]"
                    by (simp add: se ev split del: if_split)
                  have "record_iteration p env (fst (now env rt)) i ?ctx ar ev v (snd ?e) = ?S"
                    by (simp add: run_iteration_def Let_def case_prod_beta False a3 Inr size ev split del: if_split)
                  with run
                  have "record_iteration p env (fst (now env rt)) i ?ctx ar ev v (snd ?e)
                          = (r, v', rt')"
                    by simp
                  then show thesis
                  proof (cases rule: record_iteration_cases)
                    case (evaluation_complete_failed e)
                    with se' c show thesis
                      by (intro L(1) [where e = e and ctx = ?ctx and ar = ar and ev = ev]) (simp_all split del: if_split)
                  next
                    case (iteration_complete_failed e h)
                    with se' c show thesis
                      by (intro L(2) [where e = e and h = h and ctx = ?ctx and ar = ar and ev = ev]) (simp_all split del: if_split)
                  next
                    case (check_failed e h)
                    with se' c show thesis
                      by (intro L(3) [where e = e and h = h and ctx = ?ctx and ar = ar and ev = ev]) (simp_all split del: if_split)
                  next
                    case (skipped_continue cs rsn h)
                    with se' c show thesis
                      by (intro L(4) [where cs = cs and rsn = rsn and h = h and ctx = ?ctx and ar = ar and ev = ev]) (simp_all split del: if_split)
                  next
                    case (skipped_stop cs rsn tail h)
                    with se' c show thesis
                      by (intro L(5) [where cs = cs and rsn = rsn and tail = tail and h = h and ctx = ?ctx and ar = ar and ev = ev]) (simp_all split del: if_split)
                  next
                    case (transition_failed cs d rsn e h)
                    with se' c show thesis
                      by (intro L(6) [where cs = cs and d = d and rsn = rsn and e = e and h = h and ctx = ?ctx and ar = ar and ev = ev]) (simp_all split del: if_split)
                  next
                    case (transition_complete_failed cs d rsn e st' h)
                    with se' c show thesis
                      by (intro L(7) [where cs = cs and d = d and rsn = rsn and e = e and st' = st' and h = h and ctx = ?ctx and ar = ar and ev = ev]) (simp_all split del: if_split)
                  next
                    case (transitioned_continue cs rsn st' h)
                    with se' c show thesis
                      by (intro L(8) [where cs = cs and rsn = rsn and st' = st' and h = h and ctx = ?ctx and ar = ar and ev = ev]) (simp_all split del: if_split)
                  next
                    case (transitioned_stop cs rsn st' tail h)
                    with se' c show thesis
                      by (intro L(9) [where cs = cs and rsn = rsn and st' = st' and tail = tail and h = h and ctx = ?ctx and ar = ar and ev = ev]) (simp_all split del: if_split)
                  qed
                qed
              qed
            qed
          qed
        qed
      qed
    qed
  qed
qed

subsection \<open>What an iteration adds to the trace\<close>

lemma latest_state_Nil [simp]: "latest_state s [] = s"
  by (simp add: latest_state_def)

lemma latest_state_Cons [simp]:
  "latest_state s (x # xs) =
     latest_state (case returned_state x of None \<Rightarrow> s | Some st \<Rightarrow> Some st) xs"
  by (simp add: latest_state_def)

lemma latest_state_append [simp]:
  "latest_state s (xs @ ys) = latest_state (latest_state s xs) ys"
  by (simp add: latest_state_def)





lemma recorded_history_append [simp]:
  "recorded_history (xs @ ys) = recorded_history xs @ recorded_history ys"
  by (simp add: recorded_history_def)

lemma recorded_history_Nil [simp]: "recorded_history [] = []"
  by (simp add: recorded_history_def)

lemma recorded_history_Cons [simp]:
  "recorded_history (x # xs) = recorded_entry x @ recorded_history xs"
  by (simp add: recorded_history_def)



lemma failures_append [simp]: "failures (xs @ ys) = failures xs @ failures ys"
  by (simp add: failures_def map_filter_def)

lemma failures_Nil [simp]: "failures [] = []"
  by (simp add: failures_def map_filter_def)

lemma failures_Cons:
  "failures (x # xs) = (case thrown_by x of None \<Rightarrow> failures xs | Some e \<Rightarrow> e # failures xs)"
  by (simp add: failures_def map_filter_def split: option.splits)


lemma failure_of_simps [simp]: "failure_of (Inl e) = [e]" "failure_of (Inr x) = []"
  by (simp_all add: failure_of_def)

lemma transitioned_at_notification: "is_notification x \<Longrightarrow> \<not> transitioned_at k x"
  by (cases x) auto

lemma transitions_at_steps: "transitions_at k tr = transitions_at k (steps tr)"
  by (induction tr) (simp_all add: steps_Cons transitioned_at_notification)

lemma set_steps: "set (steps tr) \<subseteq> set tr"
  by (auto simp: steps_def)

lemma in_steps: "\<not> is_notification x \<Longrightarrow> x \<in> set tr \<longleftrightarrow> x \<in> set (steps tr)"
  by (auto simp: steps_def)



lemma run_iteration_summary:
  fixes p :: "('i, 's, 'a, 'r, 'w) processor"
  assumes run: "run_iteration p env startTime i v rt = (r, v', rt')"
  obtains xs ctx where
    "steps (trace rt') = steps (trace rt) @ xs"
    "ctx_iteration ctx = i"
    "previousEvaluation ctx = (if 0 < i then Some (v_finalEvaluation v) else None)"
    "\<forall>x\<in>set xs. passed_context x = None \<or> passed_context x = Some ctx"
    "\<forall>x\<in>set xs. \<not> is_initialize_call x"
    "\<forall>k. k \<noteq> i \<longrightarrow> evaluations_at k xs = []"
    "evaluations_at i xs = [] \<or> evaluations_at i xs = [v_finalEvaluation v']"
    "r = Inr Continue \<longrightarrow> evaluations_at i xs = [v_finalEvaluation v']"
    "failures xs = failure_of r \<or> isl r \<and> failures xs = []"
  using run
proof (cases rule: run_iteration_cases)
  case timed_out
  then show thesis
    by (intro that [of "[]" "\<lparr>ctx_iteration = i, ctx_maxIterations = 0, elapsedTime = 0, previousEvaluation = (if 0 < i then Some (v_finalEvaluation v) else None)\<rparr>"])
       (auto simp: failures_Cons)
next
  case (timeout_log_failed e)
  then show thesis
    by (intro that [of "[]" "\<lparr>ctx_iteration = i, ctx_maxIterations = 0, elapsedTime = 0, previousEvaluation = (if 0 < i then Some (v_finalEvaluation v) else None)\<rparr>"])
       (auto simp: failures_Cons)
next
  case (start_failed e)
  then show thesis
    by (intro that [of "[Emitted (Ev_iteration_start i)]" "\<lparr>ctx_iteration = i, ctx_maxIterations = 0, elapsedTime = 0, previousEvaluation = (if 0 < i then Some (v_finalEvaluation v) else None)\<rparr>"])
       (auto simp: failures_Cons)
next
  case (act_failed e ctx)
  then show thesis
    by (intro that [of "[Emitted (Ev_iteration_start i), Called_act (v_state v) ctx (Inl e)]" "ctx"])
       (auto simp: failures_Cons)
next
  case (action_complete_failed e ctx ar)
  then show thesis
    by (intro that [of "[Emitted (Ev_iteration_start i), Called_act (v_state v) ctx (Inr ar), Emitted (Ev_action_complete i ar)]" "ctx"])
       (auto simp: failures_Cons)
next
  case (evaluate_failed e ctx ar)
  then show thesis
    by (intro that [of "[Emitted (Ev_iteration_start i), Called_act (v_state v) ctx (Inr ar), Emitted (Ev_action_complete i ar), Called_evaluate (v_state v) ar ctx (Inl e)]" "ctx"])
       (auto simp: failures_Cons)
next
  case (evaluation_complete_failed e ctx ar ev)
  then show thesis
    by (intro that [of "[Emitted (Ev_iteration_start i), Called_act (v_state v) ctx (Inr ar), Emitted (Ev_action_complete i ar), Called_evaluate (v_state v) ar ctx (Inr ev), Emitted (Ev_evaluation_complete i ev)]" "ctx"])
       (auto simp: failures_Cons)
next
  case (iteration_complete_failed e h ctx ar ev)
  then show thesis
    by (intro that [of "[Emitted (Ev_iteration_start i), Called_act (v_state v) ctx (Inr ar), Emitted (Ev_action_complete i ar), Called_evaluate (v_state v) ar ctx (Inr ev), Emitted (Ev_evaluation_complete i ev), Emitted (Ev_iteration_complete i h)]" "ctx"])
       (auto simp: failures_Cons)
next
  case (check_failed e h ctx ar ev)
  then show thesis
    by (intro that [of "[Emitted (Ev_iteration_start i), Called_act (v_state v) ctx (Inr ar), Emitted (Ev_action_complete i ar), Called_evaluate (v_state v) ar ctx (Inr ev), Emitted (Ev_evaluation_complete i ev), Emitted (Ev_iteration_complete i h), Called_shouldTerminate (v_state v) ev ctx (Inl e)]" "ctx"])
       (auto simp: failures_Cons)
next
  case (skipped_continue cs rsn h ctx ar ev)
  then show thesis
    by (intro that [of "[Emitted (Ev_iteration_start i), Called_act (v_state v) ctx (Inr ar), Emitted (Ev_action_complete i ar), Called_evaluate (v_state v) ar ctx (Inr ev), Emitted (Ev_evaluation_complete i ev), Emitted (Ev_iteration_complete i h)] @ cs @ [Termination_checked i False rsn]" "ctx"])
       (auto simp: failures_Cons)
next
  case (skipped_stop cs rsn tail h ctx ar ev)
  then show thesis
    by (intro that [of "[Emitted (Ev_iteration_start i), Called_act (v_state v) ctx (Inr ar), Emitted (Ev_action_complete i ar), Called_evaluate (v_state v) ar ctx (Inr ev), Emitted (Ev_evaluation_complete i ev), Emitted (Ev_iteration_complete i h)] @ cs @ [Termination_checked i True rsn] @ tail" "ctx"])
       (auto simp: failures_Cons)
next
  case (transition_failed cs d rsn e h ctx ar ev)
  then show thesis
    by (intro that [of "[Emitted (Ev_iteration_start i), Called_act (v_state v) ctx (Inr ar), Emitted (Ev_action_complete i ar), Called_evaluate (v_state v) ar ctx (Inr ev), Emitted (Ev_evaluation_complete i ev), Emitted (Ev_iteration_complete i h)] @ cs @ [Termination_checked i d rsn, Called_transition (v_state v) ar ev ctx (Inl e)]" "ctx"])
       (auto simp: failures_Cons)
next
  case (transition_complete_failed cs d rsn e st' h ctx ar ev)
  then show thesis
    by (intro that [of "[Emitted (Ev_iteration_start i), Called_act (v_state v) ctx (Inr ar), Emitted (Ev_action_complete i ar), Called_evaluate (v_state v) ar ctx (Inr ev), Emitted (Ev_evaluation_complete i ev), Emitted (Ev_iteration_complete i h)] @ cs @ [Termination_checked i d rsn, Called_transition (v_state v) ar ev ctx (Inr st'), Emitted (Ev_transition_complete i st')]" "ctx"])
       (auto simp: failures_Cons)
next
  case (transitioned_continue cs rsn st' h ctx ar ev)
  then show thesis
    by (intro that [of "[Emitted (Ev_iteration_start i), Called_act (v_state v) ctx (Inr ar), Emitted (Ev_action_complete i ar), Called_evaluate (v_state v) ar ctx (Inr ev), Emitted (Ev_evaluation_complete i ev), Emitted (Ev_iteration_complete i h)] @ cs @ [Termination_checked i False rsn, Called_transition (v_state v) ar ev ctx (Inr st'), Emitted (Ev_transition_complete i st')]" "ctx"])
       (auto simp: failures_Cons)
next
  case (transitioned_stop cs rsn st' tail h ctx ar ev)
  then show thesis
    by (intro that [of "[Emitted (Ev_iteration_start i), Called_act (v_state v) ctx (Inr ar), Emitted (Ev_action_complete i ar), Called_evaluate (v_state v) ar ctx (Inr ev), Emitted (Ev_evaluation_complete i ev), Emitted (Ev_iteration_complete i h)] @ cs @ [Termination_checked i True rsn, Called_transition (v_state v) ar ev ctx (Inr st'), Emitted (Ev_transition_complete i st')] @ tail" "ctx"])
       (auto simp: failures_Cons)
qed


lemma run_iteration_slot_ok:
  fixes p :: "('i, 's, 'a, 'r, 'w) processor"
  assumes run: "run_iteration p env startTime i v rt = (r, v', rt')"
    and inv: "slot_ok p i v (steps (trace rt))"
  shows "checks_ok p (steps (trace rt'))"
    and "\<forall>j. Emitted (Ev_iteration_start j) \<in> set (steps (trace rt')) \<longrightarrow> j \<le> i"
    and "r = Inr Continue \<Longrightarrow> slot_ok p (i + 1) v' (steps (trace rt'))"
    and "\<not> isl r \<Longrightarrow> int (length (v_history v')) \<le> i + 1"
proof -
  from inv have i: "0 \<le> i" and h: "int (length (v_history v)) = i"
    and c: "checks_ok p (steps (trace rt))"
    and s: "\<And>j. Emitted (Ev_iteration_start j) \<in> set (steps (trace rt)) \<Longrightarrow> j < i"
    and t: "\<And>j d rsn. Termination_checked j d rsn \<in> set (steps (trace rt)) \<Longrightarrow> j < i"
    and n: "\<And>k. i \<le> k \<Longrightarrow> transitions_at k (steps (trace rt)) = []"
    by (auto simp: slot_ok_def)
  have c': "Termination_checked j d rsn \<in> set (steps (trace rt)) \<Longrightarrow>
      length (transitions_at j (steps (trace rt))) = (if transition_skipped p j d then 0 else 1)"
    for j d rsn
    using c unfolding checks_ok_def by blast
  have all: "checks_ok p (steps (trace rt')) \<and>
     (\<forall>j. Emitted (Ev_iteration_start j) \<in> set (steps (trace rt')) \<longrightarrow> j \<le> i) \<and>
     (r = Inr Continue \<longrightarrow> slot_ok p (i + 1) v' (steps (trace rt'))) \<and>
     (\<not> isl r \<longrightarrow> int (length (v_history v')) \<le> i + 1)"
    using run
  proof (cases rule: run_iteration_cases)
    case timed_out
    with i h n show ?thesis
      by (auto simp: checks_ok_def slot_ok_def transition_skipped_def dest: s t c')
  next
    case (timeout_log_failed e)
    with i h n show ?thesis
      by (auto simp: checks_ok_def slot_ok_def transition_skipped_def dest: s t c')
  next
    case (start_failed e)
    with i h n show ?thesis
      by (auto simp: checks_ok_def slot_ok_def transition_skipped_def dest: s t c')
  next
    case (act_failed e ctx)
    with i h n show ?thesis
      by (auto simp: checks_ok_def slot_ok_def transition_skipped_def dest: s t c')
  next
    case (action_complete_failed e ctx ar)
    with i h n show ?thesis
      by (auto simp: checks_ok_def slot_ok_def transition_skipped_def dest: s t c')
  next
    case (evaluate_failed e ctx ar)
    with i h n show ?thesis
      by (auto simp: checks_ok_def slot_ok_def transition_skipped_def dest: s t c')
  next
    case (evaluation_complete_failed e ctx ar ev)
    with i h n show ?thesis
      by (auto simp: checks_ok_def slot_ok_def transition_skipped_def dest: s t c')
  next
    case (iteration_complete_failed e h ctx ar ev)
    with i h n show ?thesis
      by (auto simp: checks_ok_def slot_ok_def transition_skipped_def dest: s t c')
  next
    case (check_failed e h ctx ar ev)
    with i h n show ?thesis
      by (auto simp: checks_ok_def slot_ok_def transition_skipped_def dest: s t c')
  next
    case (skipped_continue cs rsn h ctx ar ev)
    with i h n show ?thesis
      by (auto simp: checks_ok_def slot_ok_def transition_skipped_def dest: s t c')
  next
    case (skipped_stop cs rsn tail h ctx ar ev)
    with i h n show ?thesis
      by (auto simp: checks_ok_def slot_ok_def transition_skipped_def dest: s t c')
  next
    case (transition_failed cs d rsn e h ctx ar ev)
    with i h n show ?thesis
      by (auto simp: checks_ok_def slot_ok_def transition_skipped_def dest: s t c')
  next
    case (transition_complete_failed cs d rsn e st' h ctx ar ev)
    with i h n show ?thesis
      by (auto simp: checks_ok_def slot_ok_def transition_skipped_def dest: s t c')
  next
    case (transitioned_continue cs rsn st' h ctx ar ev)
    with i h n show ?thesis
      by (auto simp: checks_ok_def slot_ok_def transition_skipped_def dest: s t c')
  next
    case (transitioned_stop cs rsn st' tail h ctx ar ev)
    with i h n show ?thesis
      by (auto simp: checks_ok_def slot_ok_def transition_skipped_def dest: s t c')
  qed
  from all show "checks_ok p (steps (trace rt'))"
    and "\<forall>j. Emitted (Ev_iteration_start j) \<in> set (steps (trace rt')) \<longrightarrow> j \<le> i"
    and "r = Inr Continue \<Longrightarrow> slot_ok p (i + 1) v' (steps (trace rt'))"
    and "\<not> isl r \<Longrightarrow> int (length (v_history v')) \<le> i + 1"
    by simp_all
qed





subsection \<open>The outcomes of the run\<close>

lemma finish_run_cases [consumes 1, case_names finalize_failed complete_failed completed]:
  fixes p :: "('i, 's, 'a, 'r, 'w) processor"
  assumes run: "finish_run p env t0 v rt = (r, rt')"
  obtains
    (finalize_failed) e where
      "r = Inl e"
      "steps (trace rt') = steps (trace rt) @ [Called_finalize (v_state v) (v_history v) (Inl e)]"
      "\<exists>w. fst (finalize (options p) (v_state v) (v_history v) w) = Inl e"
  | (complete_failed) e x res where
      "r = Inl e"
      "steps (trace rt') = steps (trace rt) @
         [Called_finalize (v_state v) (v_history v) (Inr x), Emitted (Ev_complete res)]"
      "sink_failed p env e"
  | (completed) x res where
      "r = Inr res"
      "steps (trace rt') = steps (trace rt) @
         [Called_finalize (v_state v) (v_history v) (Inr x), Emitted (Ev_complete res)]"
      "result res = x" "iterations res = length (v_history v)"
      "finalScore res = score (v_finalEvaluation v)"
      "converged res = num_ge (score (v_finalEvaluation v)) (targetScore (config p))"
      "terminationReason res = v_terminationReason v"
      "totalCost res = calculateTotalCost (v_history v)"
      "history res = v_history v"
proof -
  let ?S = "finish_run p env t0 v rt"
  have r: "r = fst ?S" and rt': "rt' = snd ?S" by (simp_all add: run)
  let ?f = "call_finalize p (v_state v) (v_history v) rt"
  have sf: "steps (trace (snd ?f)) =
              steps (trace rt) @ [Called_finalize (v_state v) (v_history v) (fst ?f)]"
    by (simp add: call_finalize_def case_prod_beta steps_Cons)
  show thesis
  proof (cases "fst ?f")
    case (Inl e)
    then have cause: "\<exists>w. fst (finalize (options p) (v_state v) (v_history v) w) = Inl e"
      by (intro exI [of _ "world rt"]) (simp add: call_finalize_def case_prod_beta)
    show thesis
      by (intro finalize_failed [of e])
         (simp_all add: r rt' finish_run_def case_prod_beta Inl sf cause)
  next
    case (Inr x)
    let ?res = "\<lparr>result = x, iterations = length (v_history v),
       finalScore = score (v_finalEvaluation v),
       converged = num_ge (score (v_finalEvaluation v)) (targetScore (config p)),
       terminationReason = v_terminationReason v,
       totalCost = foldl (\<lambda>sum h. num_add sum (action_cost h)) (Fin 0) (v_history v),
       totalLatency = fst (now env (snd ?f)) - t0, history = v_history v\<rparr>"
    let ?e = "emit p env (Ev_complete ?res) (snd (now env (snd ?f)))"
    show thesis
    proof (cases "fst ?e")
      case (Some e)
      show thesis
        by (intro complete_failed [of e x ?res])
           (simp_all add: r rt' finish_run_def case_prod_beta Let_def Inr sf
              attempt_threw [OF Some] reject_def sink_failed_emit [OF Some])
    next
      case None
      let ?l = "log p env (Log_loop_complete (length (v_history v)) (score (v_finalEvaluation v))
                  (num_ge (score (v_finalEvaluation v)) (targetScore (config p)))
                  (v_terminationReason v)) (snd ?e)"
      show thesis
      proof (cases "fst ?l")
        case (Some e)
        show thesis
          by (intro complete_failed [of e x ?res])
             (simp_all add: r rt' finish_run_def case_prod_beta Let_def Inr sf
                attempt_returned [OF None] attempt_threw [OF Some] reject_def
                sink_failed_log [OF Some])
      next
        case logged: None
        show thesis
          by (intro completed [of ?res x])
             (simp_all add: r rt' finish_run_def case_prod_beta Let_def Inr sf
                attempt_returned [OF None] attempt_returned [OF logged] calculateTotalCost_def)
      qed
    qed
  qed
qed

lemma run_catch_cases [consumes 1, case_names report_failed rethrown handler_failed handled]:
  fixes p :: "('i, 's, 'a, 'r, 'w) processor"
  assumes run: "run_catch p env t0 e st hist fe rt = (r, rt')"
  obtains
    (report_failed) e' where
      "r = Inl e'"
      "steps (trace rt') = steps (trace rt) @ [Emitted (Ev_error (as_error e) (length hist) st)]"
      "sink_failed p env e'"
  | (rethrown)
      "onError (options p) = None" "r = Inl e"
      "steps (trace rt') = steps (trace rt) @ [Emitted (Ev_error (as_error e) (length hist) st)]"
  | (handler_failed) handler ctx e' where
      "onError (options p) = Some handler" "r = Inl e'"
      "steps (trace rt') = steps (trace rt) @
         [Emitted (Ev_error (as_error e) (length hist) st),
          Called_onError (as_error e) st ctx (Inl e')]"
      "ctx_iteration ctx = int (length hist)" "previousEvaluation ctx = Some fe"
      "\<exists>w. fst (handler (as_error e) st ctx w) = Inl e'"
  | (handled) handler ctx fb res where
      "onError (options p) = Some handler" "r = Inr res"
      "steps (trace rt') = steps (trace rt) @
         [Emitted (Ev_error (as_error e) (length hist) st),
          Called_onError (as_error e) st ctx (Inr fb)]"
      "ctx_iteration ctx = int (length hist)" "previousEvaluation ctx = Some fe"
      "\<exists>w. fst (handler (as_error e) st ctx w) = Inr fb"
      "result res = fb" "iterations res = length hist" "finalScore res = score fe"
      "\<not> converged res" "terminationReason res = Manual_stop"
      "totalCost res = calculateTotalCost hist" "history res = hist"
proof -
  let ?S = "run_catch p env t0 e st hist fe rt"
  have r: "r = fst ?S" and rt': "rt' = snd ?S" by (simp_all add: run)
  let ?e = "emit p env (Ev_error (as_error e) (length hist) st) rt"
  let ?l = "log p env (Log_error (as_error e)) (snd ?e)"
  show thesis
  proof (cases "fst ?e")
    case (Some e')
    show thesis
      by (intro report_failed [of e'])
         (simp_all add: r rt' run_catch_def Let_def attempt_threw [OF Some] reject_def
            sink_failed_emit [OF Some])
  next
    case None
    show thesis
    proof (cases "fst ?l")
      case (Some e')
      show thesis
        by (intro report_failed [of e'])
           (simp_all add: r rt' run_catch_def Let_def attempt_returned [OF None]
              attempt_threw [OF Some] reject_def sink_failed_log [OF Some])
    next
      case logged: None
      note a = attempt_returned [OF None] attempt_returned [OF logged]
      show thesis
      proof (cases "onError (options p)")
        case no: None
        show thesis
          by (intro rethrown) (simp_all add: r rt' run_catch_def Let_def a no)
      next
        case (Some handler)
        let ?ctx = "\<lparr>ctx_iteration = int (length hist),
           ctx_maxIterations = maxIterations (config p),
           elapsedTime = fst (now env (snd ?l)) - t0, previousEvaluation = Some fe\<rparr>"
        let ?h = "handler (as_error e) st ?ctx (world (snd (now env (snd ?l))))"
        show thesis
        proof (cases "fst ?h")
          case (Inl e')
          then have cause: "\<exists>w. fst (handler (as_error e) st ?ctx w) = Inl e'"
            by (intro exI [of _ "world (snd (now env (snd ?l)))"])
          show thesis
            by (intro handler_failed [of handler e' ?ctx])
               (simp_all add: r rt' run_catch_def Let_def case_prod_beta a Some Inl steps_Cons
                  cause)
        next
          case (Inr fb)
          let ?rt4 = "observe (Called_onError (as_error e) st ?ctx (Inr fb))
                        (snd (now env (snd ?l))\<lparr>world := snd ?h\<rparr>)"
          let ?res = "\<lparr>result = fb, iterations = length hist, finalScore = score fe,
             converged = False, terminationReason = Manual_stop,
             totalCost = foldl (\<lambda>sum h. num_add sum (action_cost h)) (Fin 0) hist,
             totalLatency = fst (now env ?rt4) - t0, history = hist\<rparr>"
          from Inr have cause: "\<exists>w. fst (handler (as_error e) st ?ctx w) = Inr fb"
            by (intro exI [of _ "world (snd (now env (snd ?l)))"])
          show thesis
            by (intro handled [of handler ?res ?ctx fb])
               (simp_all add: r rt' run_catch_def Let_def case_prod_beta a Some Inr steps_Cons
                  calculateTotalCost_def cause)
        qed
      qed
    qed
  qed
qed

lemma end_try_cases [consumes 1, case_names loop_failed loop_ended]:
  fixes p :: "('i, 's, 'a, 'r, 'w) processor"
  assumes run: "end_try p env t0 (e, v, rt) = (r, c, rt')"
  obtains
    (loop_failed) e0 where "e = Some e0" "r = Inl e0" "c = caught v" "rt' = rt"
  | (loop_ended) "e = None" "finish_run p env t0 v rt = (r, rt')" "c = caught v"
proof (cases e)
  case None
  with run show thesis
    by (intro loop_ended) (auto simp: end_try_def split: prod.splits)
next
  case (Some e0)
  with run show thesis
    by (intro loop_failed [of e0]) (auto simp: end_try_def)
qed

lemma run_try_cases
  [consumes 1, case_names initialize_failed initialized_failed looped]:
  fixes p :: "('i, 's, 'a, 'r, 'w) processor"
  assumes run: "run_try p env input t0 rt = (r, c, rt')"
  obtains
    (initialize_failed) e where
      "r = Inl e" "c = (None, [], initial_evaluation)"
      "steps (trace rt') = steps (trace rt) @ [Called_initialize input (Inl e)]"
      "\<exists>w. fst (initialize (options p) input w) = Inl e"
  | (initialized_failed) e st0 where
      "r = Inl e" "c = (Some st0, [], initial_evaluation)"
      "steps (trace rt') = steps (trace rt) @ [Called_initialize input (Inr st0)]"
      "sink_failed p env e"
  | (looped) st0 rt2 where
      "steps (trace rt2) = steps (trace rt) @ [Called_initialize input (Inr st0)]"
      "end_try p env t0 (run_loop p env t0 0 (initial_vars st0) rt2) = (r, c, rt')"
proof -
  let ?S = "run_try p env input t0 rt"
  have r: "r = fst ?S" and c: "c = fst (snd ?S)" and rt': "rt' = snd (snd ?S)"
    by (simp_all add: run)
  let ?i = "call_initialize p input rt"
  have si: "steps (trace (snd ?i)) = steps (trace rt) @ [Called_initialize input (fst ?i)]"
    by (simp add: call_initialize_def case_prod_beta steps_Cons)
  show thesis
  proof (cases "fst ?i")
    case (Inl e)
    then have cause: "\<exists>w. fst (initialize (options p) input w) = Inl e"
      by (intro exI [of _ "world rt"]) (simp add: call_initialize_def case_prod_beta)
    show thesis
      by (intro initialize_failed [of e])
         (simp_all add: r c rt' run_try_def case_prod_beta Inl si cause)
  next
    case (Inr st0)
    let ?l = "log p env Log_initialized (snd ?i)"
    show thesis
    proof (cases "fst ?l")
      case (Some e)
      show thesis
        by (intro initialized_failed [of e st0])
           (simp_all add: r c rt' run_try_def case_prod_beta Inr si
              attempt_threw [OF Some] leave_def sink_failed_log [OF Some])
    next
      case None
      have "end_try p env t0 (run_loop p env t0 0 (initial_vars st0) (snd ?l)) = ?S"
        by (simp add: run_try_def case_prod_beta Inr attempt_returned [OF None])
      with run have "end_try p env t0 (run_loop p env t0 0 (initial_vars st0) (snd ?l))
                       = (r, c, rt')" by simp
      then show thesis
        by (intro looped [of "snd ?l" st0]) (simp_all add: si Inr)
    qed
  qed
qed


lemma outside_loop_transitions:
  "\<forall>y\<in>set ys. outside_loop y \<Longrightarrow> transitions_at k ys = []"
  by (induction ys) (auto elim: outside_loop.elims)

lemma outside_loop_checked:
  "\<forall>y\<in>set ys. outside_loop y \<Longrightarrow> Termination_checked j d rsn \<notin> set ys"
  by auto

lemma outside_loop_started:
  "\<forall>y\<in>set ys. outside_loop y \<Longrightarrow> Emitted (Ev_iteration_start j) \<notin> set ys"
  by auto

lemma outside_loop_context:
  "outside_loop y \<Longrightarrow> passed_context y = None"
  by (cases y) auto

lemma outside_loop_evaluated:
  "\<forall>y\<in>set ys. outside_loop y \<Longrightarrow> evaluations_at k ys = []"
  by (induction ys) (auto elim: outside_loop.elims)


lemma checks_ok_outside:
  assumes "\<forall>y\<in>set ys. outside_loop y"
  shows "checks_ok p (tr @ ys) = checks_ok p tr"
  using outside_loop_transitions [OF assms] outside_loop_checked [OF assms]
  by (auto simp: checks_ok_def)

lemma slot_ok_outside:
  assumes "\<forall>y\<in>set ys. outside_loop y" and "v_history v = []"
  shows "slot_ok p 0 v ys"
  using outside_loop_transitions [OF assms(1)] outside_loop_checked [OF assms(1)]
        outside_loop_started [OF assms(1)] assms(2)
  by (auto simp: slot_ok_def checks_ok_def)

lemma run_catch_shape:
  fixes p :: "('i, 's, 'a, 'r, 'w) processor"
  assumes run: "run_catch p env t0 e st hist fe rt = (r, rt')"
  obtains ys where
    "steps (trace rt') = steps (trace rt) @ Emitted (Ev_error (as_error e) (length hist) st) # ys"
    "\<forall>y\<in>set ys. outside_loop y"
  using run
proof (cases rule: run_catch_cases)
  case (report_failed e')
  then show thesis by (intro that [of "[]"]) auto
next
  case rethrown
  then show thesis by (intro that [of "[]"]) auto
next
  case (handler_failed handler ctx e')
  then show thesis
    by (intro that [of "[Called_onError (as_error e) st ctx (Inl e')]"]) auto
next
  case (handled handler ctx fb res)
  then show thesis
    by (intro that [of "[Called_onError (as_error e) st ctx (Inr fb)]"]) auto
qed

lemma settle_shape:
  fixes p :: "('i, 's, 'a, 'r, 'w) processor"
  assumes run: "settle p env t0 (end_try p env t0 (e, v, rt)) = (r, rt')"
  obtains ys where
    "steps (trace rt') = steps (trace rt) @ ys" "\<forall>y\<in>set ys. outside_loop y"
proof -
  note shape = that
  obtain r1 c rt1 where t: "end_try p env t0 (e, v, rt) = (r1, c, rt1)"
    by (cases "end_try p env t0 (e, v, rt)") auto
  have catch: thesis
    if c: "run_catch p env t0 e1 st hist fe rt1 = (r, rt')"
      and s: "steps (trace rt1) = steps (trace rt) @ zs" and o: "\<forall>y\<in>set zs. outside_loop y"
    for e1 st hist fe zs
  proof -
    from c obtain ys where
      "steps (trace rt') = steps (trace rt1) @ Emitted (Ev_error (as_error e1) (length hist) st) # ys"
      "\<forall>y\<in>set ys. outside_loop y"
      by (rule run_catch_shape)
    with s o show thesis
      by (intro shape [of "zs @ Emitted (Ev_error (as_error e1) (length hist) st) # ys"]) auto
  qed
  from t show thesis
  proof (cases rule: end_try_cases)
    case (loop_failed e0)
    with t run have "run_catch p env t0 e0 (Some (v_state v)) (v_history v)
                       (v_finalEvaluation v) rt1 = (r, rt')"
      by (simp add: settle_def caught_def)
    from catch [OF this, of "[]"] loop_failed show thesis by simp
  next
    case loop_ended
    from loop_ended(2) show thesis
    proof (cases rule: finish_run_cases)
      case (finalize_failed e1)
      with t run loop_ended(3) have "run_catch p env t0 e1 (Some (v_state v)) (v_history v)
                       (v_finalEvaluation v) rt1 = (r, rt')"
        by (simp add: settle_def caught_def)
      from catch [OF this, of "[Called_finalize (v_state v) (v_history v) (Inl e1)]"]
        finalize_failed show thesis by simp
    next
      case (complete_failed e1 x res)
      with t run loop_ended(3) have "run_catch p env t0 e1 (Some (v_state v)) (v_history v)
                       (v_finalEvaluation v) rt1 = (r, rt')"
        by (simp add: settle_def caught_def)
      from catch [OF this, of "[Called_finalize (v_state v) (v_history v) (Inr x),
                                Emitted (Ev_complete res)]"]
        complete_failed show thesis by simp
    next
      case (completed x res)
      with t run have "rt' = rt1" by (simp add: settle_def)
      with completed show thesis
        by (intro shape [of "[Called_finalize (v_state v) (v_history v) (Inr x),
                     Emitted (Ev_complete res)]"]) auto
    qed
  qed
qed

lemma run_tried [case_names start_failed tried]:
  fixes p :: "('i, 's, 'a, 'r, 'w) processor"
  obtains
    (start_failed) e where
      "fst (run p env input rt) = Inl e"
      "steps (trace (snd (run p env input rt))) = steps (trace rt) @ [Emitted (Ev_start input)]"
      "sink_failed p env e"
  | (tried) rt3 where
      "steps (trace rt3) = steps (trace rt) @ [Emitted (Ev_start input)]"
      "run p env input rt
         = settle p env (fst (now env rt)) (run_try p env input (fst (now env rt)) rt3)"
proof -
  let ?e = "emit p env (Ev_start input) (snd (now env rt))"
  let ?l = "log p env (Log_starting (maxIterations (config p))) (snd ?e)"
  show thesis
  proof (cases "fst ?e")
    case (Some e)
    show thesis
      by (intro start_failed [of e])
         (simp_all add: run_def Let_def case_prod_beta attempt_threw [OF Some] reject_def
            sink_failed_emit [OF Some])
  next
    case None
    show thesis
    proof (cases "fst ?l")
      case (Some e)
      show thesis
        by (intro start_failed [of e])
           (simp_all add: run_def Let_def case_prod_beta attempt_returned [OF None]
              attempt_threw [OF Some] reject_def sink_failed_log [OF Some])
    next
      case logged: None
      show thesis
        by (intro tried [of "snd ?l"])
           (simp_all add: run_def Let_def case_prod_beta attempt_returned [OF None]
              attempt_returned [OF logged])
    qed
  qed
qed

lemma run_shape [case_names no_loop looped]:
  fixes p :: "('i, 's, 'a, 'r, 'w) processor"
  obtains
    (no_loop) ys where
      "steps (trace (snd (run p env input rt)))
         = steps (trace rt) @ Emitted (Ev_start input) # ys"
      "\<forall>y\<in>set ys. outside_loop y"
  | (looped) st0 rt2 e v rt5 ys where
      "steps (trace rt2)
         = steps (trace rt) @ [Emitted (Ev_start input), Called_initialize input (Inr st0)]"
      "run_loop p env (fst (now env rt)) 0 (initial_vars st0) rt2 = (e, v, rt5)"
      "run p env input rt
         = settle p env (fst (now env rt)) (end_try p env (fst (now env rt)) (e, v, rt5))"
      "steps (trace (snd (run p env input rt))) = steps (trace rt5) @ ys"
      "\<forall>y\<in>set ys. outside_loop y"
proof (cases rule: run_tried [of p env input rt])
  case (start_failed e)
  then show thesis by (intro no_loop [of "[]"]) auto
next
  case (tried rt3)
  note shape = looped
  let ?t0 = "fst (now env rt)"
  obtain r c rt4 where t: "run_try p env input ?t0 rt3 = (r, c, rt4)"
    by (cases "run_try p env input ?t0 rt3") auto
  have catch: thesis
    if r: "r = Inl e" and c: "c = (st, [], initial_evaluation)"
      and s: "steps (trace rt4) = steps (trace rt3) @ [Called_initialize input x]"
    for e st x
  proof -
    obtain r' rt' where C: "run_catch p env ?t0 e st [] initial_evaluation rt4 = (r', rt')"
      by (cases "run_catch p env ?t0 e st [] initial_evaluation rt4") auto
    from C obtain ys where
      "steps (trace rt') = steps (trace rt4) @ Emitted (Ev_error (as_error e) (length ([] :: 'a iteration_history list)) st) # ys"
      "\<forall>y\<in>set ys. outside_loop y"
      by (rule run_catch_shape)
    moreover from tried(2) t r c C have "run p env input rt = (r', rt')"
      by (simp add: settle_def)
    ultimately show thesis
      using s tried(1)
      by (intro no_loop [of "Called_initialize input x # Emitted (Ev_error (as_error e) 0 st) # ys"])
         auto
  qed
  from t show thesis
  proof (cases rule: run_try_cases)
    case (initialize_failed e)
    then show thesis by (intro catch [of e None "Inl e"]) auto
  next
    case (initialized_failed e st0)
    then show thesis by (intro catch [of e "Some st0" "Inr st0"]) auto
  next
    case (looped st0 rt2)
    obtain e v rt5 where L: "run_loop p env ?t0 0 (initial_vars st0) rt2 = (e, v, rt5)"
      by (cases "run_loop p env ?t0 0 (initial_vars st0) rt2") auto
    from tried(2) t looped(2) L
    have R: "run p env input rt = settle p env ?t0 (end_try p env ?t0 (e, v, rt5))"
      by simp
    obtain r' rt' where S: "settle p env ?t0 (end_try p env ?t0 (e, v, rt5)) = (r', rt')"
      by (cases "settle p env ?t0 (end_try p env ?t0 (e, v, rt5))") auto
    from S obtain ys where
      "steps (trace rt') = steps (trace rt5) @ ys" "\<forall>y\<in>set ys. outside_loop y"
      by (rule settle_shape)
    with R S looped(1) tried(1) L show thesis
      by (intro shape [of rt2 st0 e v rt5 ys]) auto
  qed
qed

subsection \<open>Invariants of the loop\<close>

lemma run_loop_invariant:
  fixes p :: "('i, 's, 'a, 'r, 'w) processor"
  assumes L: "run_loop p env t0 i v rt = (e, v', rt')"
    and I0: "I i v rt"
    and step: "\<And>i v rt r v' rt'. \<lbrakk>I i v rt; i < maxIterations (config p);
                  run_iteration p env t0 i v rt = (r, v', rt')\<rbrakk>
               \<Longrightarrow> (case r of Inl e \<Rightarrow> Q (Some e) v' rt'
                           | Inr Break \<Rightarrow> Q None v' rt'
                           | Inr Continue \<Rightarrow> I (i + 1) v' rt')"
    and stop: "\<And>i v rt. \<lbrakk>I i v rt; \<not> i < maxIterations (config p)\<rbrakk> \<Longrightarrow> Q None v rt"
  shows "Q e v' rt'"
proof -
  have "case run_loop p env t0 i v rt of (e, v', rt') \<Rightarrow> Q e v' rt'"
  proof (rule run_loop_rule [where I = I and Q = Q, OF I0])
    fix j w rt1
    assume inv: "I j w rt1" and lt: "j < maxIterations (config p)"
    obtain r w' rt2 where it: "run_iteration p env t0 j w rt1 = (r, w', rt2)"
      by (cases "run_iteration p env t0 j w rt1") auto
    from step [OF inv lt it] show "case run_iteration p env t0 j w rt1 of
            (Inl e, v', rt') \<Rightarrow> Q (Some e) v' rt'
          | (Inr Break, v', rt') \<Rightarrow> Q None v' rt'
          | (Inr Continue, v', rt') \<Rightarrow> I (j + 1) v' rt'"
      by (simp add: it split: sum.splits flow.splits)
  next
    fix j w rt1
    assume "I j w rt1" "\<not> j < maxIterations (config p)"
    then show "Q None w rt1" by (rule stop)
  qed
  with L show ?thesis by simp
qed


lemma run_loop_checks:
  fixes p :: "('i, 's, 'a, 'r, 'w) processor"
  assumes L: "run_loop p env t0 i v rt = (e, v', rt')"
    and inv: "slot_ok p i v (steps (trace rt))"
  shows "checks_ok p (steps (trace rt'))"
proof (rule run_loop_invariant
         [OF L, where I = "\<lambda>i v rt. slot_ok p i v (steps (trace rt))"
                  and Q = "\<lambda>e v rt. checks_ok p (steps (trace rt))"])
  fix j w rt1 r w' rt2
  assume "slot_ok p j w (steps (trace rt1))" "run_iteration p env t0 j w rt1 = (r, w', rt2)"
  from run_iteration_slot_ok(1,3) [OF this(2,1)]
  show "case r of Inl e \<Rightarrow> checks_ok p (steps (trace rt2))
        | Inr Break \<Rightarrow> checks_ok p (steps (trace rt2))
        | Inr Continue \<Rightarrow> slot_ok p (j + 1) w' (steps (trace rt2))"
    by (simp split: sum.splits flow.splits)
next
  show "slot_ok p i v (steps (trace rt))" by (rule inv)
next
  fix j w rt1
  assume "slot_ok p j w (steps (trace rt1))"
  then show "checks_ok p (steps (trace rt1))" by (simp add: slot_ok_def)
qed



subsection \<open>The transition gate\<close>

lemma run_checks_ok:
  fixes p :: "('i, 's, 'a, 'r, 'w) processor"
  assumes "trace rt = []"
  shows "checks_ok p (steps (trace (snd (run p env input rt))))"
proof (cases rule: run_shape [of p env input rt])
  case (no_loop ys)
  then have "\<forall>y\<in>set (steps (trace (snd (run p env input rt)))). outside_loop y"
    using assms by simp
  from checks_ok_outside [OF this, of p "[]"] show ?thesis
    by (simp add: checks_ok_def)
next
  case (looped st0 rt2 e v rt5 ys)
  have "slot_ok p 0 (initial_vars st0) (steps (trace rt2))"
    using looped(1) assms by (intro slot_ok_outside) (simp_all add: initial_vars_def)
  from run_loop_checks [OF looped(2) this] have "checks_ok p (steps (trace rt5))" .
  with checks_ok_outside [OF looped(5), of p "steps (trace rt5)"] looped(4)
  show ?thesis by simp
qed

text \<open>
  C2. In a run that starts with an empty trace, take any iteration \<open>i\<close> in which
  \<^verbatim>\<open>checkTermination\<close> returned its decision \<open>terminating\<close> to the loop. The
  transition is called in that iteration if and only if not ((terminating or
  \<open>i = maxIterations - 1\<close>) and not alwaysRunTransition), and never more than once. So
  without alwaysRunTransition no transition is called in the terminating iteration nor
  in the last permitted one, and with alwaysRunTransition it is called exactly once in
  every such iteration, the terminating one included.
\<close>

theorem transition_gate:
  fixes p :: "('i, 's, 'a, 'r, 'w) processor"
  assumes "trace rt = []"
    and "Termination_checked i terminating rsn \<in> set (trace (snd (run p env input rt)))"
  shows "(transitions_at i (trace (snd (run p env input rt))) \<noteq> []) =
           (\<not> ((terminating \<or> i = maxIterations (config p) - 1)
               \<and> \<not> alwaysRunTransition (config p))) \<and>
         length (transitions_at i (trace (snd (run p env input rt)))) \<le> 1 \<and>
         (\<not> alwaysRunTransition (config p) \<and> (terminating \<or> i = maxIterations (config p) - 1)
            \<longrightarrow> transitions_at i (trace (snd (run p env input rt))) = []) \<and>
         (alwaysRunTransition (config p)
            \<longrightarrow> length (transitions_at i (trace (snd (run p env input rt)))) = 1)"
proof -
  let ?T = "trace (snd (run p env input rt))"
  from assms(2) have "Termination_checked i terminating rsn \<in> set (steps ?T)"
    by (simp add: steps_def)
  with run_checks_ok [OF assms(1), of p env input]
  have "length (transitions_at i (steps ?T)) = (if transition_skipped p i terminating then 0 else 1)"
    unfolding checks_ok_def by blast
  then have "length (transitions_at i ?T) = (if transition_skipped p i terminating then 0 else 1)"
    using transitions_at_steps [of i ?T] by simp
  then show ?thesis
    by (auto simp: transition_skipped_def split: if_splits)
qed

theorem transition_gate_witness:
  "trace fresh = [] \<and>
   Termination_checked 0 False Max_iterations
     \<in> set (trace (snd (run mock_processor mock_environment 5 fresh))) \<and>
   length (transitions_at 0 (trace (snd (run mock_processor mock_environment 5 fresh)))) = 1 \<and>
   Termination_checked 1 True Converged
     \<in> set (trace (snd (run mock_processor mock_environment 5 fresh))) \<and>
   transitions_at 1 (trace (snd (run mock_processor mock_environment 5 fresh))) = [] \<and>
   Termination_checked 1 True Converged
     \<in> set (trace (snd (run eager_processor mock_environment 5 fresh))) \<and>
   length (transitions_at 1 (trace (snd (run eager_processor mock_environment 5 fresh)))) = 1"
proof -
  have h1: "trace fresh = []" by (simp add: fresh_def)
  have a: "Termination_checked 0 False Max_iterations
     \<in> set (trace (snd (run mock_processor mock_environment 5 fresh)))"
    by (simp add: eval_defs)
  have b: "Termination_checked 1 True Converged
     \<in> set (trace (snd (run mock_processor mock_environment 5 fresh)))"
    by (simp add: eval_defs)
  have c: "Termination_checked 1 True Converged
     \<in> set (trace (snd (run eager_processor mock_environment 5 fresh)))"
    by (simp add: eval_defs eager_processor_def)
  have m: "maxIterations (config mock_processor) = 5"
    "\<not> alwaysRunTransition (config mock_processor)"
    "maxIterations (config eager_processor) = 5"
    "alwaysRunTransition (config eager_processor)"
    by (simp_all add: mock_processor_def eager_processor_def default_config_def)
  from transition_gate [OF h1 a] m
  have "length (transitions_at 0 (trace (snd (run mock_processor mock_environment 5 fresh)))) = 1"
    by (cases "transitions_at 0 (trace (snd (run mock_processor mock_environment 5 fresh)))")
       simp_all
  moreover from transition_gate [OF h1 b] m
  have "transitions_at 1 (trace (snd (run mock_processor mock_environment 5 fresh))) = []"
    by simp
  moreover from transition_gate [OF h1 c] m
  have "length (transitions_at 1 (trace (snd (run eager_processor mock_environment 5 fresh)))) = 1"
    by simp
  ultimately show ?thesis using h1 a b c by simp
qed

subsection \<open>The previous evaluation\<close>

lemma evaluated_at_notification: "is_notification x \<Longrightarrow> evaluated_at k x = []"
  by (cases x) auto

lemma evaluations_at_steps: "evaluations_at k tr = evaluations_at k (steps tr)"
  by (induction tr) (simp_all add: steps_Cons evaluated_at_notification)

lemma passed_context_step: "passed_context x = Some ctx \<Longrightarrow> \<not> is_notification x"
  by (cases x) auto

lemma context_ok_steps: "context_ok tr ctx = context_ok (steps tr) ctx"
  using evaluations_at_steps [of _ tr] by (simp add: context_ok_def split: option.splits)

lemma contexts_ok_steps: "contexts_ok tr = contexts_ok (steps tr)"
  unfolding contexts_ok_def list_all_iff
  using context_ok_steps [of tr] set_steps [of tr]
  by (auto simp: steps_def dest: passed_context_step split: option.splits)

lemma invariant_final:
  assumes "loop_invariant i fe tr"
    and "ctx_iteration ctx = i"
    and "previousEvaluation ctx = (if 0 < i then Some fe else None)"
    and "\<forall>x\<in>set xs. passed_context x = None \<or> passed_context x = Some ctx"
    and "\<forall>k. k \<noteq> i \<longrightarrow> evaluations_at k xs = []"
  shows "contexts_ok (tr @ xs)"
proof -
  have new: "context_ok (tr @ xs) ctx"
    using assms(1,2,3,5) by (auto simp: context_ok_def loop_invariant_def split: option.splits)
  have old: "context_ok (tr @ xs) c" if "x \<in> set tr" "passed_context x = Some c" for x c
  proof -
    from assms(1) that have c: "ctx_iteration c < i" "context_ok tr c"
      by (auto simp: loop_invariant_def)
    then have "ctx_iteration c - 1 \<noteq> i" by simp
    with assms(5) have "evaluations_at (ctx_iteration c - 1) xs = []" by blast
    with c(2) show ?thesis by (auto simp: context_ok_def split: option.splits if_splits)
  qed
  show ?thesis
    unfolding contexts_ok_def list_all_iff
    using new old assms(4) by (auto split: option.splits)
qed

lemma invariant_step:
  assumes "loop_invariant i fe tr"
    and "ctx_iteration ctx = i"
    and "previousEvaluation ctx = (if 0 < i then Some fe else None)"
    and "\<forall>x\<in>set xs. passed_context x = None \<or> passed_context x = Some ctx"
    and "\<forall>k. k \<noteq> i \<longrightarrow> evaluations_at k xs = []"
    and "evaluations_at i xs = [fe']"
  shows "loop_invariant (i + 1) fe' (tr @ xs)"
proof -
  from invariant_final [OF assms(1-5)] have ok: "contexts_ok (tr @ xs)" .
  have lt: "ctx_iteration c < i + 1" if "x \<in> set (tr @ xs)" "passed_context x = Some c" for x c
    using that assms(1,2,4) by (fastforce simp: loop_invariant_def)
  have "\<forall>k\<ge>i + 1. evaluations_at k (tr @ xs) = []"
    using assms(1,5) by (auto simp: loop_invariant_def)
  moreover have "evaluations_at i (tr @ xs) = [fe']"
    using assms(1,6) by (auto simp: loop_invariant_def)
  moreover have "0 \<le> i + 1" using assms(1) by (simp add: loop_invariant_def)
  ultimately show ?thesis
    using ok lt
    unfolding loop_invariant_def contexts_ok_def list_all_iff
    by (auto split: option.splits)
qed

lemma invariant_contexts_ok: "loop_invariant i fe tr \<Longrightarrow> contexts_ok tr"
  unfolding loop_invariant_def contexts_ok_def list_all_iff
  by (auto split: option.splits)

lemma context_ok_neutral:
  assumes "\<forall>k. evaluations_at k ys = []"
  shows "context_ok (tr @ ys) ctx = context_ok tr ctx"
  using assms by (simp add: context_ok_def split: option.splits)

lemma contexts_ok_neutral:
  assumes "contexts_ok tr"
    and "\<forall>x\<in>set ys. passed_context x = None"
    and "\<forall>k. evaluations_at k ys = []"
  shows "contexts_ok (tr @ ys)"
  using assms(1,2)
  unfolding contexts_ok_def list_all_iff
  by (auto simp: context_ok_neutral [OF assms(3)] split: option.splits)

lemma contexts_ok_outside:
  assumes "contexts_ok tr" and "\<forall>y\<in>set ys. outside_loop y"
  shows "contexts_ok (tr @ ys)"
  using assms(2)
  by (intro contexts_ok_neutral [OF assms(1)])
     (auto simp: outside_loop_context outside_loop_evaluated)

lemma invariant_initial:
  assumes "\<forall>x\<in>set tr. passed_context x = None" and "\<forall>k. evaluations_at k tr = []"
  shows "loop_invariant 0 fe tr"
  using assms by (simp add: loop_invariant_def)

lemma invariant_outside:
  assumes "\<forall>y\<in>set ys. outside_loop y"
  shows "loop_invariant 0 fe ys"
  using assms
  by (intro invariant_initial) (auto simp: outside_loop_context outside_loop_evaluated)

lemma run_iteration_invariant:
  fixes p :: "('i, 's, 'a, 'r, 'w) processor"
  assumes it: "run_iteration p env t0 i v rt = (r, v', rt')"
    and inv: "loop_invariant i (v_finalEvaluation v) (steps (trace rt))"
  shows "contexts_ok (steps (trace rt'))"
    and "r = Inr Continue \<Longrightarrow> loop_invariant (i + 1) (v_finalEvaluation v') (steps (trace rt'))"
    and "\<forall>x\<in>set (steps (trace rt')). \<forall>ctx. passed_context x = Some ctx \<longrightarrow> ctx_iteration ctx \<le> i"
proof -
  obtain xs ctx where s:
    "steps (trace rt') = steps (trace rt) @ xs"
    "ctx_iteration ctx = i"
    "previousEvaluation ctx = (if 0 < i then Some (v_finalEvaluation v) else None)"
    "\<forall>x\<in>set xs. passed_context x = None \<or> passed_context x = Some ctx"
    "\<forall>k. k \<noteq> i \<longrightarrow> evaluations_at k xs = []"
    "r = Inr Continue \<longrightarrow> evaluations_at i xs = [v_finalEvaluation v']"
    by (rule run_iteration_summary [OF it]) blast
  from invariant_final [OF inv s(2,3,4,5)] s(1)
  show "contexts_ok (steps (trace rt'))" by simp
  show "loop_invariant (i + 1) (v_finalEvaluation v') (steps (trace rt'))" if "r = Inr Continue"
  proof -
    from that s(6) have "evaluations_at i xs = [v_finalEvaluation v']" by simp
    from invariant_step [OF inv s(2,3,4,5) this] s(1) show ?thesis by simp
  qed
  show "\<forall>x\<in>set (steps (trace rt')). \<forall>ctx. passed_context x = Some ctx \<longrightarrow> ctx_iteration ctx \<le> i"
    using inv s(1,2,4) by (fastforce simp: loop_invariant_def)
qed

lemma run_loop_contexts:
  fixes p :: "('i, 's, 'a, 'r, 'w) processor"
  assumes L: "run_loop p env t0 i v rt = (e, v', rt')"
    and inv: "loop_invariant i (v_finalEvaluation v) (steps (trace rt))"
  shows "contexts_ok (steps (trace rt'))"
proof (rule run_loop_invariant
         [OF L, where I = "\<lambda>i v rt. loop_invariant i (v_finalEvaluation v) (steps (trace rt))"
                  and Q = "\<lambda>e v rt. contexts_ok (steps (trace rt))"])
  fix j w rt1 r w' rt2
  assume "loop_invariant j (v_finalEvaluation w) (steps (trace rt1))"
    "run_iteration p env t0 j w rt1 = (r, w', rt2)"
  from run_iteration_invariant(1,2) [OF this(2,1)]
  show "case r of Inl e \<Rightarrow> contexts_ok (steps (trace rt2))
        | Inr Break \<Rightarrow> contexts_ok (steps (trace rt2))
        | Inr Continue \<Rightarrow> loop_invariant (j + 1) (v_finalEvaluation w') (steps (trace rt2))"
    by (simp split: sum.splits flow.splits)
next
  show "loop_invariant i (v_finalEvaluation v) (steps (trace rt))" by (rule inv)
next
  fix j w rt1
  assume "loop_invariant j (v_finalEvaluation w) (steps (trace rt1))"
  then show "contexts_ok (steps (trace rt1))" by (rule invariant_contexts_ok)
qed

lemma run_contexts_ok:
  fixes p :: "('i, 's, 'a, 'r, 'w) processor"
  assumes "trace rt = []"
  shows "contexts_ok (steps (trace (snd (run p env input rt))))"
proof (cases rule: run_shape [of p env input rt])
  case (no_loop ys)
  then have "\<forall>y\<in>set (steps (trace (snd (run p env input rt)))). outside_loop y"
    using assms by simp
  from invariant_contexts_ok [OF invariant_outside [OF this]] show ?thesis .
next
  case (looped st0 rt2 e v rt5 ys)
  have "loop_invariant 0 (v_finalEvaluation (initial_vars st0 :: ('s, 'a) run_vars))
          (steps (trace rt2))"
    using looped(1) assms by (intro invariant_outside) simp
  from run_loop_contexts [OF looped(2) this] have "contexts_ok (steps (trace rt5))" .
  from contexts_ok_outside [OF this looped(5)] looped(4)
  show ?thesis by simp
qed

text \<open>
  C10. In a run that starts with an empty trace, every context passed to act, evaluate
  or transition has an iteration index that is not negative; at index 0 its
  previousEvaluation is undefined, and at an index \<open>i > 0\<close> it is the one evaluation
  that the evaluate phase returned in iteration \<open>i - 1\<close>.
\<close>

theorem previous_evaluation_passed:
  fixes p :: "('i, 's, 'a, 'r, 'w) processor"
  assumes "trace rt = []"
    and "x \<in> set (trace (snd (run p env input rt)))"
    and "passed_context x = Some ctx"
  shows "0 \<le> ctx_iteration ctx \<and>
         (if ctx_iteration ctx = 0 then previousEvaluation ctx = None
          else (\<exists>e. previousEvaluation ctx = Some e \<and>
                  evaluations_at (ctx_iteration ctx - 1) (trace (snd (run p env input rt)))
                    = [e]))"
proof -
  from run_contexts_ok [OF assms(1), of p env input]
  have "contexts_ok (trace (snd (run p env input rt)))"
    using contexts_ok_steps by blast
  with assms(2,3) have "context_ok (trace (snd (run p env input rt))) ctx"
    unfolding contexts_ok_def list_all_iff by fastforce
  then show ?thesis
    by (auto simp: context_ok_def split: option.splits if_splits)
qed

theorem previous_evaluation_passed_witness:
  "trace fresh = [] \<and>
   Called_act 6 second_context (Inr paid_seven)
     \<in> set (trace (snd (run mock_processor mock_environment 5 fresh))) \<and>
   passed_context (Called_act 6 second_context (Inr paid_seven) ::
     (int, int, int, int) observation) = Some second_context \<and>
   ctx_iteration second_context = 1 \<and>
   previousEvaluation second_context = Some sixty \<and>
   evaluations_at (ctx_iteration second_context - 1)
     (trace (snd (run mock_processor mock_environment 5 fresh))) = [sixty]"
proof -
  have h1: "trace fresh = []" by (simp add: fresh_def)
  have h2: "Called_act 6 second_context (Inr paid_seven)
     \<in> set (trace (snd (run mock_processor mock_environment 5 fresh)))"
    by (simp add: eval_defs second_context_def sixty_def paid_seven_def)
  have h3: "passed_context (Called_act 6 second_context (Inr paid_seven) ::
     (int, int, int, int) observation) = Some second_context"
    by simp
  have c: "ctx_iteration second_context = 1" "previousEvaluation second_context = Some sixty"
    by (simp_all add: second_context_def)
  from previous_evaluation_passed [OF h1 h2 h3] c
  have "evaluations_at (ctx_iteration second_context - 1)
     (trace (snd (run mock_processor mock_environment 5 fresh))) = [sixty]"
    by simp
  with h1 h2 h3 c show ?thesis by simp
qed

subsection \<open>The result of a completed run\<close>




subsection \<open>Exceptions\<close>








subsection \<open>The timeout\<close>

lemma loop_entry_cases [consumes 1, case_names entered]:
  fixes p :: "('i, 's, 'a, 'r, 'w) processor"
  assumes "loop_entry p env input rt = Some (v, rt2)"
  obtains st0 where
    "v = initial_vars st0"
    "steps (trace rt2)
       = steps (trace rt) @ [Emitted (Ev_start input), Called_initialize input (Inr st0)]"
    "run p env input rt
       = settle p env (fst (now env rt))
           (end_try p env (fst (now env rt)) (run_loop p env (fst (now env rt)) 0 v rt2))"
proof -
  let ?e = "emit p env (Ev_start input) (snd (now env rt))"
  let ?l = "log p env (Log_starting (maxIterations (config p))) (snd ?e)"
  let ?i = "call_initialize p input (snd ?l)"
  let ?l2 = "log p env Log_initialized (snd ?i)"
  have si: "steps (trace (snd ?i)) = steps (trace (snd ?l)) @ [Called_initialize input (fst ?i)]"
    by (simp add: call_initialize_def case_prod_beta steps_Cons)
  from assms have e: "fst ?e = None"
    by (cases "fst ?e") (simp_all add: loop_entry_def attempt_def)
  note ae = attempt_returned [OF e]
  from assms have l: "fst ?l = None"
    by (cases "fst ?l") (simp_all add: loop_entry_def ae, simp add: attempt_def)
  note al = attempt_returned [OF l]
  from assms obtain st0 where i: "fst ?i = Inr st0"
    by (cases "fst ?i") (simp_all add: loop_entry_def ae al case_prod_beta)
  from assms have l2: "fst ?l2 = None"
    by (cases "fst ?l2") (simp_all add: loop_entry_def ae al case_prod_beta i, simp add: attempt_def)
  note al2 = attempt_returned [OF l2]
  from assms have v: "v = initial_vars st0" and rt2: "rt2 = snd ?l2"
    by (simp_all add: loop_entry_def ae al case_prod_beta i al2)
  show thesis
  proof (rule that [of st0])
    show "v = initial_vars st0" by (rule v)
    show "steps (trace rt2)
       = steps (trace rt) @ [Emitted (Ev_start input), Called_initialize input (Inr st0)]"
      using si i by (simp add: rt2)
    show "run p env input rt
       = settle p env (fst (now env rt))
           (end_try p env (fst (now env rt)) (run_loop p env (fst (now env rt)) 0 v rt2))"
      by (simp add: run_def Let_def case_prod_beta ae al run_try_def i al2 v rt2)
  qed
qed

lemma loop_head_Suc:
  fixes p :: "('i, 's, 'a, 'r, 'w) processor"
  assumes "loop_head p env t0 v0 rt0 (Suc n) = Some (v, rt1)"
  obtains w rt' where
    "loop_head p env t0 v0 rt0 n = Some (w, rt')" "int n < maxIterations (config p)"
    "run_iteration p env t0 (int n) w rt' = (Inr Continue, v, rt1)"
proof -
  from assms obtain w rt' where h: "loop_head p env t0 v0 rt0 n = Some (w, rt')"
    by (cases "loop_head p env t0 v0 rt0 n") auto
  with assms have lt: "int n < maxIterations (config p)"
    by (cases "int n < maxIterations (config p)") simp_all
  obtain r w' rt'' where it: "run_iteration p env t0 (int n) w rt' = (r, w', rt'')"
    by (cases "run_iteration p env t0 (int n) w rt'") auto
  with assms h lt have "r = Inr Continue \<and> w' = v \<and> rt'' = rt1"
    by (cases r) (auto split: flow.splits)
  with h lt it show thesis by (intro that [of w rt']) simp_all
qed

lemma loop_head_run_loop:
  fixes p :: "('i, 's, 'a, 'r, 'w) processor"
  assumes "loop_head p env t0 v0 rt0 n = Some (v, rt1)"
  shows "run_loop p env t0 0 v0 rt0 = run_loop p env t0 (int n) v rt1"
  using assms
proof (induction n arbitrary: v rt1)
  case 0
  then show ?case by simp
next
  case (Suc n)
  from Suc.prems obtain w rt' where h: "loop_head p env t0 v0 rt0 n = Some (w, rt')"
    and lt: "int n < maxIterations (config p)"
    and it: "run_iteration p env t0 (int n) w rt' = (Inr Continue, v, rt1)"
    by (rule loop_head_Suc)
  have "run_loop p env t0 (int n) w rt' = run_loop p env t0 (int n + 1) v rt1"
    using lt it by (subst run_loop.simps) simp
  with Suc.IH [OF h] show ?case by (simp add: add.commute)
qed



lemma run_from_slot:
  fixes p :: "('i, 's, 'a, 'r, 'w) processor"
  assumes "slot_start p env input rt n = Some (v, rt1)"
  shows "run p env input rt
       = settle p env (fst (now env rt))
           (end_try p env (fst (now env rt)) (run_loop p env (fst (now env rt)) (int n) v rt1))"
proof -
  from assms obtain v0 rt0 where le: "loop_entry p env input rt = Some (v0, rt0)"
    and lh: "loop_head p env (fst (now env rt)) v0 rt0 n = Some (v, rt1)"
    by (cases "loop_entry p env input rt") (auto simp: slot_start_def)
  from le have "run p env input rt
       = settle p env (fst (now env rt))
           (end_try p env (fst (now env rt)) (run_loop p env (fst (now env rt)) 0 v0 rt0))"
    by (rule loop_entry_cases)
  with loop_head_run_loop [OF lh] show ?thesis by simp
qed






subsection \<open>Listeners\<close>








end
